theory Spec2Isabelle
  imports Complex_Main "HOL-Library.Sublist"
begin

section \<open>Python values\<close>

text \<open>
  The program is a Flask application (\<open>app.py\<close>) that works on dynamically typed
  data: documents returned by \<open>json.loads\<close> and \<open>requests\<close>, cell texts scraped
  from a rendered page, and query parameters. The values it can meet are the ones
  \<open>json.loads\<close> produces: \<open>None\<close>, booleans, unbounded integers, floats, strings,
  lists and dictionaries.

  A float is an IEEE double: a finite value, an infinity or a NaN. A finite double is
  kept as the rational number it denotes, so \<open>Fin\<close> also holds rationals that are no
  double; a statement about every \<open>Fin x\<close> covers every double. Signed zero is one
  value. A string is a list of characters, a character being a code point below 256
  (Latin-1); the character classes the program relies on (decimal digits, white space,
  upper-case letters) are the Unicode ones restricted to these code points.
  A dictionary is the list of its entries; \<open>dict.get\<close> is \<open>map_of\<close>.
\<close>

datatype py_error = TypeError | ValueError | OverflowError | AttributeError | OSError

datatype pyfloat = Fin rat | PInf | NInf | NaN

datatype json =
    JNull
  | JBool bool
  | JInt int
  | JFloat pyfloat
  | JStr string
  | JArr "json list"
  | JObj "(string \<times> json) list"

text \<open>Sequencing of computations that may raise.\<close>

definition bind_err :: "'e + 'a \<Rightarrow> ('a \<Rightarrow> 'e + 'b) \<Rightarrow> 'e + 'b" where
  "bind_err m f = (case m of Inl e \<Rightarrow> Inl e | Inr x \<Rightarrow> f x)"

text \<open>Truth value of an object (\<open>bool(x)\<close>), as \<open>or\<close>, \<open>not\<close> and \<open>if\<close> test it.\<close>

fun truthy :: "json \<Rightarrow> bool" where
  "truthy JNull = False"
| "truthy (JBool b) = b"
| "truthy (JInt i) = (i \<noteq> 0)"
| "truthy (JFloat f) = (f \<noteq> Fin 0)"
| "truthy (JStr s) = (s \<noteq> [])"
| "truthy (JArr xs) = (xs \<noteq> [])"
| "truthy (JObj d) = (d \<noteq> [])"

definition py_or :: "json \<Rightarrow> json \<Rightarrow> json" where
  "py_or a b = (if truthy a then a else b)"

text \<open>\<open>obj.get(k, default)\<close>: only a dictionary has the method.\<close>

definition dict_get :: "(string \<times> json) list \<Rightarrow> string \<Rightarrow> json \<Rightarrow> json" where
  "dict_get d k dflt = (case map_of d k of None \<Rightarrow> dflt | Some v \<Rightarrow> v)"

fun py_get :: "json \<Rightarrow> string \<Rightarrow> json \<Rightarrow> py_error + json" where
  "py_get (JObj d) k dflt = Inr (dict_get d k dflt)"
| "py_get _ k dflt = Inl AttributeError"

section \<open>Strings and numbers\<close>

text \<open>
  Character classes: \<open>\d\<close> of the patterns and the digits \<open>int\<close> and
  \<open>float\<close> accept; the white space \<open>str.strip\<close>, \<open>int\<close> and \<open>float\<close> remove,
  which includes the next-line character \<open>U+0085\<close> and the no-break space \<open>U+00A0\<close>;
  \<open>str.lower\<close>, which maps the capitals \<open>A\<close> to \<open>Z\<close> and the Latin-1 capitals
  \<open>U+00C0\<close> to \<open>U+00DE\<close> (the multiplication sign \<open>U+00D7\<close> apart) 32 code points up.
\<close>

definition digit_val :: "char \<Rightarrow> int option" where
  "digit_val c = map_of
     [(CHR ''0'', 0), (CHR ''1'', 1), (CHR ''2'', 2), (CHR ''3'', 3), (CHR ''4'', 4),
      (CHR ''5'', 5), (CHR ''6'', 6), (CHR ''7'', 7), (CHR ''8'', 8), (CHR ''9'', 9)] c"

definition is_digit :: "char \<Rightarrow> bool" where
  "is_digit c = (digit_val c \<noteq> None)"

definition is_space :: "char \<Rightarrow> bool" where
  "is_space c = (c \<in> set [CHR 0x09, CHR 0x0A, CHR 0x0B, CHR 0x0C, CHR 0x0D,
                            CHR 0x1C, CHR 0x1D, CHR 0x1E, CHR 0x1F, CHR '' '',
                            CHR 0x85, CHR 0xA0])"

definition lower_char :: "char \<Rightarrow> char" where
  "lower_char c =
     (case map_of
        (zip
          (''ABCDEFGHIJKLMNOPQRSTUVWXYZ'' @
           [CHR 0xC0, CHR 0xC1, CHR 0xC2, CHR 0xC3, CHR 0xC4, CHR 0xC5, CHR 0xC6, CHR 0xC7,
           CHR 0xC8, CHR 0xC9, CHR 0xCA, CHR 0xCB, CHR 0xCC, CHR 0xCD, CHR 0xCE, CHR 0xCF,
           CHR 0xD0, CHR 0xD1, CHR 0xD2, CHR 0xD3, CHR 0xD4, CHR 0xD5, CHR 0xD6, CHR 0xD8,
           CHR 0xD9, CHR 0xDA, CHR 0xDB, CHR 0xDC, CHR 0xDD, CHR 0xDE])
          (''abcdefghijklmnopqrstuvwxyz'' @
           [CHR 0xE0, CHR 0xE1, CHR 0xE2, CHR 0xE3, CHR 0xE4, CHR 0xE5, CHR 0xE6, CHR 0xE7,
           CHR 0xE8, CHR 0xE9, CHR 0xEA, CHR 0xEB, CHR 0xEC, CHR 0xED, CHR 0xEE, CHR 0xEF,
           CHR 0xF0, CHR 0xF1, CHR 0xF2, CHR 0xF3, CHR 0xF4, CHR 0xF5, CHR 0xF6, CHR 0xF8,
           CHR 0xF9, CHR 0xFA, CHR 0xFB, CHR 0xFC, CHR 0xFD, CHR 0xFE])) c of
        None \<Rightarrow> c
      | Some l \<Rightarrow> l)"

definition lower :: "string \<Rightarrow> string" where
  "lower s = map lower_char s"

definition strip :: "string \<Rightarrow> string" where
  "strip s = rev (dropWhile is_space (rev (dropWhile is_space s)))"

text \<open>The value of a string of decimal digits; \<open>None\<close> when a character is no digit.\<close>

fun digits_acc :: "int \<Rightarrow> string \<Rightarrow> int option" where
  "digits_acc a [] = Some a"
| "digits_acc a (c # cs) =
     (case digit_val c of None \<Rightarrow> None | Some d \<Rightarrow> digits_acc (10 * a + d) cs)"

definition int_of_digits :: "string \<Rightarrow> int option" where
  "int_of_digits s = (if s = [] then None else digits_acc 0 s)"

text \<open>
  \<open>int\<close> and \<open>float\<close> accept single underscores between digits. The check runs over
  the text with the previous character in hand, as CPython's does, and the
  underscores are then dropped.
\<close>

fun underscores_ok :: "char \<Rightarrow> string \<Rightarrow> bool" where
  "underscores_ok prev [] = (prev \<noteq> CHR ''_'')"
| "underscores_ok prev (c # cs) =
     (if c = CHR ''_'' then is_digit prev \<and> underscores_ok c cs
      else (if prev = CHR ''_'' then is_digit c else True) \<and> underscores_ok c cs)"

definition without_underscores :: "string \<Rightarrow> string option" where
  "without_underscores s =
     (if underscores_ok (CHR 0x00) s then Some (filter (\<lambda>c. c \<noteq> CHR ''_'') s) else None)"

definition split_sign :: "string \<Rightarrow> bool \<times> string" where
  "split_sign s =
     (case s of
        [] \<Rightarrow> (False, [])
      | c # cs \<Rightarrow>
          if c = CHR ''-'' then (True, cs)
          else if c = CHR ''+'' then (False, cs)
          else (False, s))"

text \<open>\<open>int(s)\<close> for a string: white space around, a sign, decimal digits.\<close>

definition int_of_string :: "string \<Rightarrow> int option" where
  "int_of_string s =
     (case split_sign (strip s) of (neg, body) \<Rightarrow>
        (case without_underscores body of
           None \<Rightarrow> None
         | Some ds \<Rightarrow>
             (case int_of_digits ds of
                None \<Rightarrow> None
              | Some n \<Rightarrow> Some (if neg then - n else n))))"

text \<open>\<open>str(n)\<close> for an integer.\<close>

function show_nat :: "int \<Rightarrow> string" where
  "show_nat n =
     (if n < 10 then [''0123456789'' ! nat n]
      else show_nat (n div 10) @ [''0123456789'' ! nat (n mod 10)])"
  by pat_completeness auto
termination
  by (relation "measure nat") auto

definition show_int :: "int \<Rightarrow> string" where
  "show_int i = (if i < 0 then CHR ''-'' # show_nat (- i) else show_nat i)"

subsection \<open>Conversion to a double\<close>

text \<open>
  \<open>float\<close> of a decimal text or of an integer is the double nearest to the number
  written, ties going to the even significand, and an infinity past the largest double.
  \<open>double_of_ratio p q\<close> rounds \<open>p / q\<close> for \<open>q > 0\<close>: with \<open>e\<close> the exponent of the
  last significand bit (not below that of the subnormals), the significand is
  \<open>p / (q * 2 ^ e)\<close> rounded to an integer.
\<close>

function bitlen :: "int \<Rightarrow> int" where
  "bitlen n = (if n \<le> 0 then 0 else 1 + bitlen (n div 2))"
  by pat_completeness auto
termination
  by (relation "measure nat") auto

text \<open>\<open>ilog2_ratio p q\<close> is the integer part of the binary logarithm of \<open>p / q\<close>.\<close>

definition ilog2_adjust :: "int \<Rightarrow> int \<Rightarrow> int \<Rightarrow> int" where
  "ilog2_adjust p q d =
     (if (if 0 \<le> d then q * 2 ^ nat d \<le> p else q \<le> p * 2 ^ nat (- d)) then d else d - 1)"

definition ilog2_ratio :: "int \<Rightarrow> int \<Rightarrow> int" where
  "ilog2_ratio p q = ilog2_adjust p q (bitlen p - bitlen q)"

text \<open>\<open>round_half_even n d\<close> is \<open>n / d\<close> rounded to the nearest integer, ties to even.\<close>

definition round_half_even :: "int \<Rightarrow> int \<Rightarrow> int" where
  "round_half_even n d =
     (if 2 * (n mod d) < d then n div d
      else if d < 2 * (n mod d) then n div d + 1
      else if even (n div d) then n div d
      else n div d + 1)"

definition double_exp :: "int \<Rightarrow> int \<Rightarrow> int" where
  "double_exp a q = max (ilog2_ratio a q - 52) (- 1074)"

definition double_significand :: "int \<Rightarrow> int \<Rightarrow> int \<Rightarrow> int" where
  "double_significand a q e = round_half_even (a * 2 ^ nat (- e)) (q * 2 ^ nat e)"

definition pack_double :: "bool \<Rightarrow> int \<Rightarrow> int \<Rightarrow> pyfloat" where
  "pack_double neg e m =
     (if 0 \<le> e \<and> 2 ^ 1024 \<le> m * 2 ^ nat e then (if neg then NInf else PInf)
      else Fin (of_int ((if neg then - m else m) * 2 ^ nat e) / of_int (2 ^ nat (- e))))"

definition double_of_ratio :: "int \<Rightarrow> int \<Rightarrow> pyfloat" where
  "double_of_ratio p q =
     (if p = 0 then Fin 0
      else pack_double (p < 0) (double_exp \<bar>p\<bar> q)
             (double_significand \<bar>p\<bar> q (double_exp \<bar>p\<bar> q)))"

text \<open>
  \<open>float(s)\<close> for a string: white space around, a sign, then \<open>inf\<close>, \<open>infinity\<close> or
  \<open>nan\<close> in any case, or digits with an optional point and an optional exponent.
  \<open>parse_decimal\<close> returns the digits \<open>m\<close> and the power of ten \<open>k\<close> of the number
  \<open>m * 10 ^ k\<close>.
\<close>

definition parse_exponent :: "string \<Rightarrow> int option" where
  "parse_exponent s =
     (case split_sign s of (neg, ds) \<Rightarrow>
        (case int_of_digits ds of None \<Rightarrow> None | Some n \<Rightarrow> Some (if neg then - n else n)))"

definition int_part :: "string \<Rightarrow> string" where
  "int_part s = takeWhile is_digit s"

definition after_int :: "string \<Rightarrow> string" where
  "after_int s = dropWhile is_digit s"

definition frac_part :: "string \<Rightarrow> string" where
  "frac_part r = (case r of [] \<Rightarrow> [] | c # t \<Rightarrow> if c = CHR ''.'' then takeWhile is_digit t else [])"

definition after_frac :: "string \<Rightarrow> string" where
  "after_frac r = (case r of [] \<Rightarrow> [] | c # t \<Rightarrow> if c = CHR ''.'' then dropWhile is_digit t else r)"

definition parse_decimal :: "string \<Rightarrow> (int \<times> int) option" where
  "parse_decimal s =
     (if int_part s = [] \<and> frac_part (after_int s) = [] then None
      else
        (case digits_acc 0 (int_part s @ frac_part (after_int s)) of
           None \<Rightarrow> None
         | Some m \<Rightarrow>
             (case after_frac (after_int s) of
                [] \<Rightarrow> Some (m, - int (length (frac_part (after_int s))))
              | c # r \<Rightarrow>
                  if c = CHR ''e'' \<or> c = CHR ''E'' then
                    (case parse_exponent r of
                       None \<Rightarrow> None
                     | Some x \<Rightarrow> Some (m, x - int (length (frac_part (after_int s)))))
                  else None)))"

definition float_of_string :: "string \<Rightarrow> pyfloat option" where
  "float_of_string s =
     (case without_underscores (strip s) of
        None \<Rightarrow> None
      | Some t \<Rightarrow>
          (case split_sign t of (neg, body) \<Rightarrow>
             if lower body = ''inf'' \<or> lower body = ''infinity'' then Some (if neg then NInf else PInf)
             else if lower body = ''nan'' then Some NaN
             else
               (case parse_decimal body of
                  None \<Rightarrow> None
                | Some (m, k) \<Rightarrow>
                    Some (double_of_ratio ((if neg then - m else m) * 10 ^ nat k) (10 ^ nat (- k))))))"

text \<open>\<open>float(x)\<close> and \<open>int(x)\<close> for any value; \<open>int\<close> of a float truncates.\<close>

definition trunc_rat :: "rat \<Rightarrow> int" where
  "trunc_rat x = (if 0 \<le> x then \<lfloor>x\<rfloor> else \<lceil>x\<rceil>)"

fun py_float :: "json \<Rightarrow> py_error + pyfloat" where
  "py_float JNull = Inl TypeError"
| "py_float (JBool b) = Inr (Fin (if b then 1 else 0))"
| "py_float (JInt i) =
     (case double_of_ratio i 1 of Fin x \<Rightarrow> Inr (Fin x) | _ \<Rightarrow> Inl OverflowError)"
| "py_float (JFloat f) = Inr f"
| "py_float (JStr s) =
     (case float_of_string s of None \<Rightarrow> Inl ValueError | Some f \<Rightarrow> Inr f)"
| "py_float (JArr xs) = Inl TypeError"
| "py_float (JObj d) = Inl TypeError"

fun int_of_float :: "pyfloat \<Rightarrow> py_error + int" where
  "int_of_float (Fin x) = Inr (trunc_rat x)"
| "int_of_float NaN = Inl ValueError"
| "int_of_float PInf = Inl OverflowError"
| "int_of_float NInf = Inl OverflowError"

fun py_int :: "json \<Rightarrow> py_error + int" where
  "py_int JNull = Inl TypeError"
| "py_int (JBool b) = Inr (if b then 1 else 0)"
| "py_int (JInt i) = Inr i"
| "py_int (JFloat f) = int_of_float f"
| "py_int (JStr s) =
     (case int_of_string s of None \<Rightarrow> Inl ValueError | Some i \<Rightarrow> Inr i)"
| "py_int (JArr xs) = Inl TypeError"
| "py_int (JObj d) = Inl TypeError"

section \<open>Formatter utilities\<close>

text \<open>
  \<^verbatim>\<open>
  def _to_m_ss(seconds: int) -> str:
      try:
          sec = int(seconds or 0)
          m, s = divmod(sec, 60)
          return f"{m}:{s:02d}"
      except Exception:
          return "-"
  \<close>
  \<open>fmt_02d\<close> is the format \<open>02d\<close>: at least two characters, padded with a zero.
\<close>

definition fmt_02d :: "int \<Rightarrow> string" where
  "fmt_02d n = (if 0 \<le> n \<and> n < 10 then CHR ''0'' # show_int n else show_int n)"

definition to_m_ss :: "json \<Rightarrow> string" where
  "to_m_ss seconds =
     (case py_int (py_or seconds (JInt 0)) of
        Inl e \<Rightarrow> ''-''
      | Inr sec \<Rightarrow> show_int (sec div 60) @ '':'' @ fmt_02d (sec mod 60))"

text \<open>
  \<^verbatim>\<open>
  def kd_round_to_int(val) -> int:
      try:
          n = float(val)
      except Exception:
          return 0
      i = int(n)
      frac = abs(n - i)
      if frac <= 0.4:
          return i
      if frac >= 0.5:
          return i + (1 if n >= 0 else -1)
      return i
  \<close>
  Only the conversion \<open>float(val)\<close> stands inside the \<open>try\<close>; \<open>int(n)\<close> raises for a
  NaN and for an infinity, so past it \<open>n\<close> is finite (the last case below is never
  reached). For a finite double \<open>n\<close> the difference \<open>n - i\<close> is a double, so \<open>frac\<close>
  is exact. The literal \<open>0.4\<close> is the double nearest to 2/5, which is
  \<open>float_0_4\<close>; \<open>0.5\<close> is 1/2. \<open>kd_round_from n i\<close> is the body from the line
  \<open>frac = abs(n - i)\<close> on, with \<open>frac\<close> written out.
\<close>

definition float_0_4 :: rat where
  "float_0_4 = 3602879701896397 / 9007199254740992"

definition kd_round_from :: "rat \<Rightarrow> int \<Rightarrow> int" where
  "kd_round_from n i =
     (if \<bar>n - of_int i\<bar> \<le> float_0_4 then i
      else if 1 / 2 \<le> \<bar>n - of_int i\<bar> then i + (if 0 \<le> n then 1 else - 1)
      else i)"

definition kd_round_to_int :: "json \<Rightarrow> py_error + int" where
  "kd_round_to_int val =
     (case py_float val of
        Inl e \<Rightarrow> Inr 0
      | Inr n \<Rightarrow>
          bind_err (int_of_float n) (\<lambda>i.
            (case n of Fin x \<Rightarrow> Inr (kd_round_from x i) | _ \<Rightarrow> Inr i)))"

section \<open>The safe accessor\<close>

text \<open>
  \<^verbatim>\<open>
  def _safe_get(obj, *keys, default=None):
      cur = obj
      try:
          for k in keys:
              if isinstance(cur, dict):
                  cur = cur.get(k)
              else:
                  return default
          return cur if cur is not None else default
      except Exception:
          return default
  \<close>
  The loop either leaves early (\<open>None\<close> below) or ends with the value of \<open>cur\<close>.
  With string keys nothing in the body raises.
\<close>

fun safe_get_loop :: "json \<Rightarrow> string list \<Rightarrow> json option" where
  "safe_get_loop cur [] = Some cur"
| "safe_get_loop (JObj d) (k # ks) = safe_get_loop (dict_get d k JNull) ks"
| "safe_get_loop _ (k # ks) = None"

definition safe_get :: "json \<Rightarrow> string list \<Rightarrow> json \<Rightarrow> json" where
  "safe_get obj keys dflt =
     (case safe_get_loop obj keys of
        None \<Rightarrow> dflt
      | Some cur \<Rightarrow> if cur \<noteq> JNull then cur else dflt)"

text \<open>
  The value stored at the end of a key path, when the whole path exists: every node
  before the last is a dictionary that has the next key.
\<close>

fun path_value :: "json \<Rightarrow> string list \<Rightarrow> json option" where
  "path_value v [] = Some v"
| "path_value (JObj d) (k # ks) =
     (case map_of d k of None \<Rightarrow> None | Some v \<Rightarrow> path_value v ks)"
| "path_value _ (k # ks) = None"

section \<open>The match stat extractor\<close>

text \<open>
  \<^verbatim>\<open>
  def extract_player_stats_from_match(match_json, player_name):
      data = match_json.get("data", {})
      attrs = data.get("attributes", {})
      included = match_json.get("included", []) or []
      game_mode = attrs.get("gameMode") or "-"
      map_name = attrs.get("mapName") or "-"
      created_at = attrs.get("createdAt") or "-"
      participant = None
      for inc in included:
          if inc.get("type") == "participant":
              s = _safe_get(inc, "attributes", "stats", default={})
              if s.get("name", "").lower() == (player_name or "").lower():
                  participant = s
                  break
      out = {"match_id": data.get("id"), "mode": game_mode, "map": map_name,
             "createdAt": created_at, "rank": None, "kills": 0, "damage": 0.0,
             "dbno": 0, "traveled": "-", "timeAlive": "-"}
      if not participant:
          return out
      out.update({"rank": participant.get("winPlace"), ...,
                  "traveled": _distance_str(...),
                  "timeAlive": _to_m_ss(participant.get("timeSurvived", 0))})
      return out
  \<close>
  The result dictionary has the same ten keys on every path, so it is a record. A method
  call on a value that lacks the method (\<open>.get\<close> on anything but a dictionary,
  \<open>.lower\<close> on anything but a string) raises \<open>AttributeError\<close>, and iterating a
  value that is no container raises \<open>TypeError\<close>; nothing in the function catches
  them. \<open>_distance_str\<close> catches every exception, so it is a total function to a
  string; it is a parameter here.
\<close>

record match_stat =
  match_id :: json
  mode :: json
  map_name :: json
  createdAt :: json
  rank :: json
  kills :: json
  damage :: json
  dbno :: json
  traveled :: string
  timeAlive :: string

text \<open>The items a \<open>for\<close> loop takes from a value: list elements, characters, keys.\<close>

fun py_iter :: "json \<Rightarrow> py_error + json list" where
  "py_iter (JArr xs) = Inr xs"
| "py_iter (JStr s) = Inr (map (\<lambda>c. JStr [c]) s)"
| "py_iter (JObj d) = Inr (map (\<lambda>kv. JStr (fst kv)) d)"
| "py_iter _ = Inl TypeError"

fun py_lower :: "json \<Rightarrow> py_error + string" where
  "py_lower (JStr s) = Inr (lower s)"
| "py_lower _ = Inl AttributeError"

definition default_stat :: "json \<Rightarrow> json \<Rightarrow> json \<Rightarrow> json \<Rightarrow> match_stat" where
  "default_stat mid game_mode mname created_at =
     \<lparr>match_id = mid, mode = game_mode, map_name = mname, createdAt = created_at,
      rank = JNull, kills = JInt 0, damage = JFloat (Fin 0), dbno = JInt 0,
      traveled = ''-'', timeAlive = ''-''\<rparr>"

fun find_participant :: "string \<Rightarrow> json list \<Rightarrow> py_error + json option" where
  "find_participant player_name [] = Inr None"
| "find_participant player_name (inc # rest) =
     bind_err (py_get inc ''type'' JNull) (\<lambda>ty.
       if ty = JStr ''participant'' then
         bind_err (py_get (safe_get inc [''attributes'', ''stats''] (JObj [])) ''name'' (JStr [])) (\<lambda>nm.
         bind_err (py_lower nm) (\<lambda>l.
           if l = lower player_name
           then Inr (Some (safe_get inc [''attributes'', ''stats''] (JObj [])))
           else find_participant player_name rest))
       else find_participant player_name rest)"

definition extract_player_stats_from_match ::
    "(json \<Rightarrow> json \<Rightarrow> json \<Rightarrow> string) \<Rightarrow> json \<Rightarrow> string \<Rightarrow> py_error + match_stat" where
  "extract_player_stats_from_match distance_str match_json player_name =
     bind_err (py_get match_json ''data'' (JObj [])) (\<lambda>data.
     bind_err (py_get data ''attributes'' (JObj [])) (\<lambda>attrs.
     bind_err (py_get match_json ''included'' (JArr [])) (\<lambda>inc0.
     bind_err (py_get attrs ''gameMode'' JNull) (\<lambda>gm.
     bind_err (py_get attrs ''mapName'' JNull) (\<lambda>mn.
     bind_err (py_get attrs ''createdAt'' JNull) (\<lambda>ca.
     bind_err (py_iter (py_or inc0 (JArr []))) (\<lambda>included.
     bind_err (find_participant player_name included) (\<lambda>participant.
     bind_err (py_get data ''id'' JNull) (\<lambda>mid.
       (case participant of
          None \<Rightarrow>
            Inr (default_stat mid (py_or gm (JStr ''-'')) (py_or mn (JStr ''-''))
                   (py_or ca (JStr ''-'')))
        | Some p \<Rightarrow>
            if \<not> truthy p then
              Inr (default_stat mid (py_or gm (JStr ''-'')) (py_or mn (JStr ''-''))
                     (py_or ca (JStr ''-'')))
            else
              bind_err (py_get p ''winPlace'' JNull) (\<lambda>wp.
              bind_err (py_get p ''kills'' (JInt 0)) (\<lambda>k.
              bind_err (py_get p ''damageDealt'' (JFloat (Fin 0))) (\<lambda>dmg.
              bind_err (py_get p ''DBNOs'' (JInt 0)) (\<lambda>kn.
              bind_err (py_get p ''walkDistance'' (JFloat (Fin 0))) (\<lambda>walk.
              bind_err (py_get p ''rideDistance'' (JFloat (Fin 0))) (\<lambda>ride.
              bind_err (py_get p ''swimDistance'' (JFloat (Fin 0))) (\<lambda>swim.
              bind_err (py_get p ''timeSurvived'' (JInt 0)) (\<lambda>ts.
                Inr ((default_stat mid (py_or gm (JStr ''-'')) (py_or mn (JStr ''-''))
                        (py_or ca (JStr ''-'')))
                     \<lparr>rank := wp, kills := k, damage := dmg, dbno := kn,
                      traveled := distance_str walk ride swim,
                      timeAlive := to_m_ss ts\<rparr>)))))))))))))))))))"

section \<open>The match pager\<close>

text \<open>
  \<^verbatim>\<open>
      page = max(int(request.args.get("page", 0) or 0), 0)
      limit = int(request.args.get("limit", 10) or 10)
      limit = 1 if limit < 1 else (50 if limit > 50 else limit)
      ...
          all_ids = get_player_match_ids(pid)
          if not all_ids:
              return jsonify({"ok": True, "player": player_name, "matches": []})
          start = page * limit
          end = start + limit
          slice_ids = all_ids[start:end]
          matches = []
          for mid in slice_ids:
              try:
                  mj = get_match_detail(mid)
                  st = extract_player_stats_from_match(mj, player_name)
                  matches.append(st)
              except Exception:
                  continue
          return jsonify({"ok": True, "player": player_name, "page": page,
                          "limit": limit, "matches": matches})
  \<close>
  The model starts from the two query numbers as integers and from the list of match
  ids; \<open>get_match_detail\<close> is a request to the remote service, a parameter that
  returns a document or raises. \<open>py_slice\<close> is \<open>xs[start:end]\<close> with Python's
  reading of negative and out-of-range bounds.
\<close>

definition clamp_index :: "int \<Rightarrow> int \<Rightarrow> nat" where
  "clamp_index n i = nat (if i < 0 then max (n + i) 0 else min i n)"

definition py_slice :: "'a list \<Rightarrow> int \<Rightarrow> int \<Rightarrow> 'a list" where
  "py_slice xs start stop =
     drop (clamp_index (int (length xs)) start)
       (take (clamp_index (int (length xs)) stop) xs)"

definition clamp_limit :: "int \<Rightarrow> int" where
  "clamp_limit limit = (if limit < 1 then 1 else (if limit > 50 then 50 else limit))"

fun collect_matches ::
    "(string \<Rightarrow> py_error + json) \<Rightarrow> (json \<Rightarrow> json \<Rightarrow> json \<Rightarrow> string) \<Rightarrow>
     string \<Rightarrow> match_stat list \<Rightarrow> string list \<Rightarrow> match_stat list" where
  "collect_matches get_match_detail distance_str player_name matches [] = matches"
| "collect_matches get_match_detail distance_str player_name matches (mid # mids) =
     (case bind_err (get_match_detail mid)
             (\<lambda>mj. extract_player_stats_from_match distance_str mj player_name) of
        Inl e \<Rightarrow> collect_matches get_match_detail distance_str player_name matches mids
      | Inr st \<Rightarrow>
          collect_matches get_match_detail distance_str player_name (matches @ [st]) mids)"

record matches_response =
  resp_player :: string
  resp_page :: "int option"
  resp_limit :: "int option"
  resp_matches :: "match_stat list"

definition api_matches ::
    "(string \<Rightarrow> py_error + json) \<Rightarrow> (json \<Rightarrow> json \<Rightarrow> json \<Rightarrow> string) \<Rightarrow>
     string \<Rightarrow> string list \<Rightarrow> int \<Rightarrow> int \<Rightarrow> matches_response" where
  "api_matches get_match_detail distance_str player_name all_ids page_arg limit_arg =
     (if all_ids = [] then
        \<lparr>resp_player = player_name, resp_page = None, resp_limit = None, resp_matches = []\<rparr>
      else
        \<lparr>resp_player = player_name,
         resp_page = Some (max page_arg 0),
         resp_limit = Some (clamp_limit limit_arg),
         resp_matches =
           collect_matches get_match_detail distance_str player_name []
             (py_slice all_ids (max page_arg 0 * clamp_limit limit_arg)
                (max page_arg 0 * clamp_limit limit_arg + clamp_limit limit_arg))\<rparr>)"

section \<open>The disk cache\<close>

text \<open>
  \<^verbatim>\<open>
  CACHE_DIR = Path(".twire_cache")
  CACHE_TTL_SEC = 6 * 60 * 60

  def cache_path(tid, group, round_):
      key = f"{tid}__g={group or ''}__r={round_ or ''}".replace("/", "_")
      return CACHE_DIR / f"player_stats_{key}.json"

  def load_cache(tid, group, round_):
      p = cache_path(tid, group, round_)
      if p.exists():
          try:
              obj = json.loads(p.read_text(encoding="utf-8"))
              if time.time() - obj.get("_ts", 0) <= CACHE_TTL_SEC:
                  return obj.get("data")
          except Exception:
              pass
      return None

  def save_cache(tid, group, round_, data):
      p = cache_path(tid, group, round_)
      p.write_text(json.dumps({"_ts": int(time.time()), "data": data}, ...), encoding="utf-8")
  \<close>
  The three key parts are strings (the handler passes query parameters); \<open>grp\<close> and
  \<open>rnd\<close> stand for \<open>group\<close> and \<open>round_\<close>. The file system
  gives the state of every path: \<open>Absent\<close> when \<open>p.exists()\<close> is false; \<open>Unusable\<close>
  when the operating system rejects the path (a name that is too long, for one), so that
  \<open>p.exists()\<close>, which stands outside the \<open>try\<close>, raises \<open>OSError\<close>; \<open>Unreadable\<close>
  when the path exists and \<open>read_text\<close> raises; \<open>Text t\<close> when it holds the text \<open>t\<close>.
  Whether \<open>write_text\<close> succeeds on a path is the parameter \<open>writable\<close>; where it
  fails \<open>save_cache\<close> raises \<open>OSError\<close>, as it has no \<open>try\<close>. The clock reading
  \<open>now\<close> is the value of the double \<open>time.time()\<close> returns. \<open>json.dumps\<close> and
  \<open>json.loads\<close> are parameters: \<open>loads\<close> returns \<open>None\<close> where \<open>json.loads\<close> raises.
  The data \<open>load_cache\<close> returns is \<open>None\<close> for Python's \<open>None\<close>, which is also what
  \<open>obj.get("data")\<close> gives for a null.
\<close>

definition CACHE_TTL_SEC :: rat where
  "CACHE_TTL_SEC = 6 * 60 * 60"

definition replace_slash :: "string \<Rightarrow> string" where
  "replace_slash s = map (\<lambda>c. if c = CHR ''/'' then CHR ''_'' else c) s"

definition cache_key :: "string \<Rightarrow> string \<Rightarrow> string \<Rightarrow> string" where
  "cache_key tid grp rnd = replace_slash (tid @ ''__g='' @ grp @ ''__r='' @ rnd)"

definition cache_path :: "string \<Rightarrow> string \<Rightarrow> string \<Rightarrow> string" where
  "cache_path tid grp rnd =
     ''.twire_cache/'' @ ''player_stats_'' @ cache_key tid grp rnd @ ''.json''"

datatype 'text path_state = Absent | Unusable | Unreadable | Text 'text

type_synonym 'text fs = "string \<Rightarrow> 'text path_state"

text \<open>
  \<open>time.time() - ts <= CACHE_TTL_SEC\<close> for a stored \<open>ts\<close>: a number is subtracted
  (an integer after its conversion to a float, which raises when it is too large), an
  infinity and a NaN follow IEEE arithmetic, anything else raises \<open>TypeError\<close>. The
  difference of two doubles is the double nearest to their exact difference,
  \<open>round_double\<close> of it; the comparison with the integer bound is exact.
\<close>

definition round_double :: "rat \<Rightarrow> pyfloat" where
  "round_double x = double_of_ratio (fst (quotient_of x)) (snd (quotient_of x))"

fun float_le :: "pyfloat \<Rightarrow> rat \<Rightarrow> bool" where
  "float_le (Fin x) c = (x \<le> c)"
| "float_le PInf c = False"
| "float_le NInf c = True"
| "float_le NaN c = False"

fun within_ttl :: "rat \<Rightarrow> json \<Rightarrow> py_error + bool" where
  "within_ttl now (JInt t) =
     (case double_of_ratio t 1 of
        Fin x \<Rightarrow> Inr (float_le (round_double (now - x)) CACHE_TTL_SEC)
      | _ \<Rightarrow> Inl OverflowError)"
| "within_ttl now (JBool b) =
     Inr (float_le (round_double (now - (if b then 1 else 0))) CACHE_TTL_SEC)"
| "within_ttl now (JFloat (Fin t)) = Inr (float_le (round_double (now - t)) CACHE_TTL_SEC)"
| "within_ttl now (JFloat PInf) = Inr True"
| "within_ttl now (JFloat NInf) = Inr False"
| "within_ttl now (JFloat NaN) = Inr False"
| "within_ttl now _ = Inl TypeError"

definition none_if_null :: "json \<Rightarrow> json option" where
  "none_if_null v = (if v = JNull then None else Some v)"

definition load_cache ::
    "('text \<Rightarrow> json option) \<Rightarrow> 'text fs \<Rightarrow> rat \<Rightarrow> string \<Rightarrow> string \<Rightarrow> string \<Rightarrow>
     py_error + json option" where
  "load_cache loads files now tid grp rnd =
     (case files (cache_path tid grp rnd) of
        Absent \<Rightarrow> Inr None
      | Unusable \<Rightarrow> Inl OSError
      | Unreadable \<Rightarrow> Inr None
      | Text t \<Rightarrow>
          (case loads t of
             None \<Rightarrow> Inr None
           | Some obj \<Rightarrow>
               (case bind_err (py_get obj ''_ts'' (JInt 0)) (within_ttl now) of
                  Inl e \<Rightarrow> Inr None
                | Inr ok \<Rightarrow>
                    if ok then
                      (case py_get obj ''data'' JNull of
                         Inl e \<Rightarrow> Inr None
                       | Inr d \<Rightarrow> Inr (none_if_null d))
                    else Inr None)))"

definition save_cache ::
    "(json \<Rightarrow> 'text) \<Rightarrow> (string \<Rightarrow> bool) \<Rightarrow> 'text fs \<Rightarrow> rat \<Rightarrow> string \<Rightarrow> string \<Rightarrow> string \<Rightarrow>
     json \<Rightarrow> py_error + 'text fs" where
  "save_cache dumps writable files now tid grp rnd data =
     (if writable (cache_path tid grp rnd) then
        Inr (files (cache_path tid grp rnd :=
               Text (dumps (JObj [(''_ts'', JInt (trunc_rat now)), (''data'', data)]))))
      else Inl OSError)"

section \<open>The leaderboard parser\<close>

text \<open>
  \<open>parse_twire_players\<close> reads the rendered page through BeautifulSoup. The model
  starts from what the queries of the source return for each \<open>table\<close> element, in
  document order: the cells of \<open>tb.select("thead th")\<close>, the first row
  \<open>tb.find("tr")\<close> with its cells \<open>find_all(["th", "td"])\<close> (absent when the table
  has no row), the rows of \<open>tb.select("tbody tr")\<close> and the rows of
  \<open>first.find_all_next("tr")\<close>, each row with its cells. A cell is the list of the
  text nodes below it, from which \<open>get_text(sep, strip=True)\<close> strips each, drops
  the empty ones and joins the rest.
\<close>

type_synonym cell = "string list"

record table =
  thead_th :: "cell list"
  first_tr :: "cell list option"
  tbody_tr :: "cell list list"
  next_tr :: "cell list list"

fun join :: "string \<Rightarrow> string list \<Rightarrow> string" where
  "join sep [] = []"
| "join sep [x] = x"
| "join sep (x # y # ys) = x @ sep @ join sep (y # ys)"

definition get_text :: "string \<Rightarrow> cell \<Rightarrow> string" where
  "get_text sep c = join sep (filter (\<lambda>t. t \<noteq> []) (map strip c))"

text \<open>
  \<^verbatim>\<open>
      wanted = ["player", "k/d", "kills", "assists", "headshot", "longest"]
      for tb in tables:
          ths = [th.get_text(strip=True).lower() for th in tb.select("thead th")]
          if not ths:
              fr = tb.find("tr")
              if fr:
                  ths = [c.get_text(strip=True).lower() for c in fr.find_all(["th", "td"])]
          score = sum(any(w in h for h in ths) for w in wanted)
          if score >= 4:
              target = tb
              break
  \<close>
  \<open>w in h\<close> on strings is the substring test, \<open>sublist\<close>.
\<close>

definition wanted :: "string list" where
  "wanted = [''player'', ''k/d'', ''kills'', ''assists'', ''headshot'', ''longest'']"

definition header_text :: "cell \<Rightarrow> string" where
  "header_text c = lower (get_text [] c)"

definition header_texts :: "table \<Rightarrow> string list" where
  "header_texts tb =
     (if map header_text (thead_th tb) = [] then
        (case first_tr tb of None \<Rightarrow> [] | Some cells \<Rightarrow> map header_text cells)
      else map header_text (thead_th tb))"

definition score :: "table \<Rightarrow> nat" where
  "score tb = length (filter (\<lambda>w. list_ex (\<lambda>h. sublist w h) (header_texts tb)) wanted)"

fun find_target :: "table list \<Rightarrow> table option" where
  "find_target [] = None"
| "find_target (tb # tbs) = (if 4 \<le> score tb then Some tb else find_target tbs)"

text \<open>
  \<^verbatim>\<open>
      headers = [h.get_text(strip=True).lower() for h in target.select("thead th")]
      body_rows = target.select("tbody tr")
      if not headers:
          first = target.find("tr")
          if first:
              headers = [c.get_text(strip=True).lower() for c in first.find_all(["th", "td"])]
              body_rows = first.find_all_next("tr")
          else:
              body_rows = target.find_all("tr")[1:]
  \<close>
  A table with no first row has no row at all, so the last slice is empty.
\<close>

definition body_rows :: "table \<Rightarrow> cell list list" where
  "body_rows target =
     (if map header_text (thead_th target) = [] then
        (case first_tr target of None \<Rightarrow> [] | Some cells \<Rightarrow> next_tr target)
      else tbody_tr target)"

text \<open>
  \<^verbatim>\<open>
      def find_idx(keys):
          for i, h in enumerate(headers):
              for k in keys:
                  if k in h:
                      return i
          return -1
  \<close>
\<close>

fun find_idx_from :: "int \<Rightarrow> string list \<Rightarrow> string list \<Rightarrow> int" where
  "find_idx_from i keys [] = - 1"
| "find_idx_from i keys (h # hs) =
     (if list_ex (\<lambda>k. sublist k h) keys then i else find_idx_from (i + 1) keys hs)"

definition find_idx :: "string list \<Rightarrow> string list \<Rightarrow> int" where
  "find_idx headers keys = find_idx_from 0 keys headers"

record columns =
  i_player :: int
  i_kd :: int
  i_kills :: int
  i_ast :: int
  i_hs :: int
  i_long :: int

definition infer_columns :: "string list \<Rightarrow> columns" where
  "infer_columns headers =
     \<lparr>i_player = find_idx headers [''player'', ''ign'', ''nickname'', ''name''],
      i_kd = find_idx headers [''k/d'', ''kd''],
      i_kills = find_idx headers [''kill''],
      i_ast = find_idx headers [''assist''],
      i_hs = find_idx headers [''headshot''],
      i_long = find_idx headers [''longest'']\<rparr>"

text \<open>
  \<^verbatim>\<open>
      def as_int(s):
          s = (s or "").replace(",", "")
          m = re.search(r"-?\d+", s)
          return int(m.group()) if m else 0

      def as_float(s):
          s = (s or "").replace(",", "")
          m = re.search(r"-?\d+(\.\d+)?", s)
          return float(m.group()) if m else 0.0
  \<close>
  \<open>re.search\<close> returns the leftmost match, and each part of the pattern takes as much
  as it can: at a digit the match is the run of digits from there; at a minus sign
  followed by a digit it is the sign and the run; anywhere else the search moves on.
  The second pattern then takes a point and a run of digits when a digit follows the
  point.
\<close>

definition starts_with_digit :: "string \<Rightarrow> bool" where
  "starts_with_digit s = (case s of [] \<Rightarrow> False | c # t \<Rightarrow> is_digit c)"

fun search_int :: "string \<Rightarrow> string option" where
  "search_int [] = None"
| "search_int (c # cs) =
     (if is_digit c then Some (c # takeWhile is_digit cs)
      else if c = CHR ''-'' \<and> starts_with_digit cs then Some (c # takeWhile is_digit cs)
      else search_int cs)"

definition frac_suffix :: "string \<Rightarrow> string" where
  "frac_suffix r =
     (case r of
        [] \<Rightarrow> []
      | c # t \<Rightarrow> if c = CHR ''.'' \<and> starts_with_digit t then c # takeWhile is_digit t else [])"

fun search_float :: "string \<Rightarrow> string option" where
  "search_float [] = None"
| "search_float (c # cs) =
     (if is_digit c
      then Some (c # takeWhile is_digit cs @ frac_suffix (dropWhile is_digit cs))
      else if c = CHR ''-'' \<and> starts_with_digit cs
      then Some (c # takeWhile is_digit cs @ frac_suffix (dropWhile is_digit cs))
      else search_float cs)"

definition remove_commas :: "string \<Rightarrow> string" where
  "remove_commas s = filter (\<lambda>c. c \<noteq> CHR '','') s"

definition as_int :: "string \<Rightarrow> py_error + int" where
  "as_int s =
     (case search_int (remove_commas s) of
        None \<Rightarrow> Inr 0
      | Some m \<Rightarrow> (case int_of_string m of None \<Rightarrow> Inl ValueError | Some i \<Rightarrow> Inr i))"

definition as_float :: "string \<Rightarrow> py_error + pyfloat" where
  "as_float s =
     (case search_float (remove_commas s) of
        None \<Rightarrow> Inr (Fin 0)
      | Some m \<Rightarrow> (case float_of_string m of None \<Rightarrow> Inl ValueError | Some f \<Rightarrow> Inr f))"

text \<open>
  \<^verbatim>\<open>
      for tr in body_rows:
          tds = tr.find_all(["td", "th"])
          if not tds or len(tds) < 3:
              continue
          def val(i):
              return tds[i].get_text(" ", strip=True) if 0 <= i < len(tds) else ""
          ign = val(i_player)
          if not ign or ign.lower() in ("player", "name"):
              continue
          kd = kd_round_to_int(val(i_kd))
          players.append({"ign": ign, "kd": kd,
                          "kills_total": as_int(val(i_kills)),
                          "assists_total": as_int(val(i_ast)),
                          "headshot_kills": as_int(val(i_hs)),
                          "longest_kill": as_float(val(i_long))})
      return players
  \<close>
\<close>

record player_row =
  ign :: string
  kd :: int
  kills_total :: int
  assists_total :: int
  headshot_kills :: int
  longest_kill :: pyfloat

definition val :: "cell list \<Rightarrow> int \<Rightarrow> string" where
  "val tds i = (if 0 \<le> i \<and> i < int (length tds) then get_text '' '' (tds ! nat i) else [])"

definition parse_row :: "columns \<Rightarrow> cell list \<Rightarrow> py_error + player_row option" where
  "parse_row ix tds =
     (if tds = [] \<or> length tds < 3 then Inr None
      else if val tds (i_player ix) = []
              \<or> lower (val tds (i_player ix)) \<in> set [''player'', ''name''] then Inr None
      else
        bind_err (kd_round_to_int (JStr (val tds (i_kd ix)))) (\<lambda>k.
        bind_err (as_int (val tds (i_kills ix))) (\<lambda>kt.
        bind_err (as_int (val tds (i_ast ix))) (\<lambda>ast.
        bind_err (as_int (val tds (i_hs ix))) (\<lambda>hk.
        bind_err (as_float (val tds (i_long ix))) (\<lambda>lk.
          Inr (Some \<lparr>ign = val tds (i_player ix), kd = k, kills_total = kt,
                      assists_total = ast, headshot_kills = hk, longest_kill = lk\<rparr>)))))))"

fun parse_rows :: "columns \<Rightarrow> player_row list \<Rightarrow> cell list list \<Rightarrow> py_error + player_row list" where
  "parse_rows ix players [] = Inr players"
| "parse_rows ix players (tr # trs) =
     bind_err (parse_row ix tr) (\<lambda>r.
       (case r of
          None \<Rightarrow> parse_rows ix players trs
        | Some p \<Rightarrow> parse_rows ix (players @ [p]) trs))"

definition parse_twire_players :: "table list \<Rightarrow> py_error + player_row list" where
  "parse_twire_players tables =
     (case find_target tables of
        None \<Rightarrow> Inr []
      | Some target \<Rightarrow>
          parse_rows (infer_columns (header_texts target)) [] (body_rows target))"

section \<open>Specification-side notions\<close>

text \<open>
  The notions below are not taken from the source: they state what the description
  of the program says, for comparison with the functions above.
\<close>

text \<open>The two characters of a number of seconds below 100, zero-padded.\<close>

definition two_digits :: "int \<Rightarrow> string" where
  "two_digits n = [''0123456789'' ! nat (n div 10), ''0123456789'' ! nat (n mod 10)]"

text \<open>The value of a digit string, and of a match of \<open>-?\d+\<close>.\<close>

definition digits_value :: "string \<Rightarrow> int" where
  "digits_value ds = foldl (\<lambda>a c. 10 * a + (case digit_val c of None \<Rightarrow> 0 | Some d \<Rightarrow> d)) 0 ds"

definition int_of_match :: "string \<Rightarrow> int" where
  "int_of_match m =
     (case m of
        [] \<Rightarrow> 0
      | c # ds \<Rightarrow> if c = CHR ''-'' then - digits_value ds else digits_value m)"

text \<open>A float that is not negative (an infinity counts, a NaN does not).\<close>

fun float_nonneg :: "pyfloat \<Rightarrow> bool" where
  "float_nonneg (Fin x) = (0 \<le> x)"
| "float_nonneg PInf = True"
| "float_nonneg NInf = False"
| "float_nonneg NaN = False"

text \<open>
  What one match id contributes to a page: its stat record when the retrieval and the
  extraction both succeed, nothing otherwise.
\<close>

definition fetch_stat ::
    "(string \<Rightarrow> py_error + json) \<Rightarrow> (json \<Rightarrow> json \<Rightarrow> json \<Rightarrow> string) \<Rightarrow>
     string \<Rightarrow> string \<Rightarrow> match_stat option" where
  "fetch_stat get_match_detail distance_str player_name mid =
     (case get_match_detail mid of
        Inl e \<Rightarrow> None
      | Inr mj \<Rightarrow>
          (case extract_player_stats_from_match distance_str mj player_name of
             Inl e \<Rightarrow> None
           | Inr st \<Rightarrow> Some st))"

text \<open>The header cells of a table: those of its header row, else those of its first row.\<close>

definition header_cells :: "table \<Rightarrow> cell list" where
  "header_cells tb =
     (if thead_th tb \<noteq> [] then thead_th tb
      else (case first_tr tb of None \<Rightarrow> [] | Some cells \<Rightarrow> cells))"

section \<open>Properties\<close>

declare show_nat.simps [simp del] bitlen.simps [simp del]

lemmas py_eval =
  strip_def is_space_def split_sign_def without_underscores_def is_digit_def digit_val_def
  int_of_digits_def int_of_string_def lower_def lower_char_def bind_err_def
  parse_decimal_def int_part_def after_int_def frac_part_def after_frac_def parse_exponent_def
  float_of_string_def py_or_def

lemma trunc_rat_numeral:
  "trunc_rat (numeral a / numeral b) = numeral a div numeral b"
  "trunc_rat (- (numeral a / numeral b)) = - (numeral a div numeral b)"
  "trunc_rat (numeral a) = numeral a"
  "trunc_rat (- numeral a) = - numeral a"
  "trunc_rat 0 = 0"
  "trunc_rat 1 = 1"
proof -
  have f: "\<lfloor>(numeral a / numeral b :: rat)\<rfloor> = numeral a div numeral b"
    using floor_divide_of_int_eq [of "numeral a" "numeral b", where ?'a = rat] by simp
  show "trunc_rat (numeral a / numeral b) = numeral a div numeral b"
    by (simp add: trunc_rat_def f)
  have "\<lceil>- (numeral a / numeral b :: rat)\<rceil> = - \<lfloor>(numeral a / numeral b :: rat)\<rfloor>"
    by (simp add: ceiling_def)
  then show "trunc_rat (- (numeral a / numeral b)) = - (numeral a div numeral b)"
    by (simp add: trunc_rat_def f)
qed (simp_all add: trunc_rat_def)

subsection \<open>Formatting seconds\<close>

lemma show_nat_digit: "0 \<le> n \<Longrightarrow> n < 10 \<Longrightarrow> show_nat n = [''0123456789'' ! nat n]"
  by (simp add: show_nat.simps)

lemma fmt_02d_two_digits:
  assumes "0 \<le> n" "n < 100"
  shows "fmt_02d n = two_digits n"
proof (cases "n < 10")
  case True
  with assms show ?thesis
    by (simp add: fmt_02d_def show_int_def show_nat_digit two_digits_def)
next
  case False
  with assms have d: "0 \<le> n div 10" "n div 10 < 10" by auto
  have "show_nat n = show_nat (n div 10) @ [''0123456789'' ! nat (n mod 10)]"
    using False by (subst show_nat.simps) simp
  with False assms d show ?thesis
    by (simp add: fmt_02d_def show_int_def show_nat_digit two_digits_def)
qed

lemma to_m_ss_int:
  "to_m_ss (JInt s) = show_int (s div 60) @ '':'' @ two_digits (s mod 60)"
proof -
  have "fmt_02d (s mod 60) = two_digits (s mod 60)"
    by (rule fmt_02d_two_digits) simp_all
  then show ?thesis
    by (cases "s = 0") (simp_all add: to_m_ss_def py_or_def)
qed

lemma to_m_ss_falsy: "\<not> truthy v \<Longrightarrow> to_m_ss v = ''0:00''"
  by (simp add: to_m_ss_def py_or_def fmt_02d_def show_int_def show_nat.simps)

lemma to_m_ss_error: "truthy v \<Longrightarrow> py_int v = Inl e \<Longrightarrow> to_m_ss v = ''-''"
  by (simp add: to_m_ss_def py_or_def)

text \<open>
  C7 (amended). A number of seconds \<open>s \<ge> 0\<close> is rendered as the decimal minutes
  \<open>s div 60\<close>, a colon and the two digits of \<open>s mod 60\<close>. An input that is
  missing or otherwise false (\<open>None\<close>, \<open>False\<close>, zero, an empty string, list or
  dictionary) is replaced by 0 before the conversion and renders as \<open>0:00\<close>. Any
  other input that \<open>int\<close> rejects yields the sentinel \<open>-\<close>.
\<close>

theorem to_m_ss_rendering:
  "(0 \<le> s \<longrightarrow> to_m_ss (JInt s) = show_int (s div 60) @ '':'' @ two_digits (s mod 60)) \<and>
   (\<not> truthy v \<longrightarrow> to_m_ss v = ''0:00'') \<and>
   (truthy w \<and> py_int w = Inl e \<longrightarrow> to_m_ss w = ''-'')"
  by (simp add: to_m_ss_int to_m_ss_falsy to_m_ss_error)

text \<open>
  The claim as first stated asks for the sentinel on a missing input; \<open>None\<close> gives
  \<open>0:00\<close> instead.
\<close>

theorem to_m_ss_null_counterexample: "to_m_ss JNull \<noteq> ''-''"
  by (simp add: to_m_ss_falsy)

theorem to_m_ss_rendering_witness:
  "to_m_ss (JInt 0) = ''0:00'' \<and> to_m_ss (JInt 65) = ''1:05'' \<and> to_m_ss (JInt 425) = ''7:05'' \<and>
   to_m_ss JNull = ''0:00'' \<and> to_m_ss (JStr ''abc'') = ''-''"
proof -
  have s: "show_int 0 = ''0''" "show_int 1 = ''1''" "show_int 7 = ''7''"
    by (simp_all add: show_int_def show_nat.simps)
  have t: "two_digits 0 = ''00''" "two_digits 5 = ''05''"
    by (simp_all add: two_digits_def)
  have a: "to_m_ss (JInt 0) = ''0:00''"
    using to_m_ss_rendering [of 0 JNull JNull TypeError] by (simp add: s t)
  have b: "to_m_ss (JInt 65) = ''1:05''"
    using to_m_ss_rendering [of 65 JNull JNull TypeError] by (simp add: s t)
  have c: "to_m_ss (JInt 425) = ''7:05''"
    using to_m_ss_rendering [of 425 JNull JNull TypeError] by (simp add: s t)
  have n: "\<not> truthy JNull" by simp
  have d: "to_m_ss JNull = ''0:00''"
    using to_m_ss_rendering [of 0 JNull JNull TypeError] n by blast
  have e1: "truthy (JStr ''abc'')" by simp
  have e2: "py_int (JStr ''abc'') = Inl ValueError" by (simp add: py_eval)
  have e: "to_m_ss (JStr ''abc'') = ''-''"
    using to_m_ss_rendering [of 0 JNull "JStr ''abc''" ValueError] e1 e2 by blast
  from a b c d e show ?thesis by simp
qed

subsection \<open>Ratio rounding\<close>

lemma float_0_4_bounds: "2 / 5 \<le> float_0_4" "float_0_4 < 1 / 2"
  by (simp_all add: float_0_4_def)

lemma kd_round_to_int_finite:
  "py_float v = Inr (Fin x) \<Longrightarrow> kd_round_to_int v = Inr (kd_round_from x (trunc_rat x))"
  by (simp add: kd_round_to_int_def bind_err_def)

lemma kd_round_to_int_not_float: "py_float v = Inl e \<Longrightarrow> kd_round_to_int v = Inr 0"
  by (simp add: kd_round_to_int_def)

lemma kd_round_from_rule:
  "(\<bar>x - of_int i\<bar> \<le> 2 / 5 \<longrightarrow> kd_round_from x i = i) \<and>
   (1 / 2 \<le> \<bar>x - of_int i\<bar> \<longrightarrow> kd_round_from x i = i + (if 0 \<le> x then 1 else - 1)) \<and>
   (2 / 5 < \<bar>x - of_int i\<bar> \<and> \<bar>x - of_int i\<bar> < 1 / 2 \<longrightarrow> kd_round_from x i = i)"
  using float_0_4_bounds by (auto simp add: kd_round_from_def)

text \<open>
  For a finite float the rounding rule: a fraction of at most 0.40 keeps the truncated
  value, a fraction of at least 0.50 moves one away from zero, and a fraction strictly
  between keeps the truncated value.
\<close>

theorem kd_round_to_int_rule:
  "(py_float v = Inl e \<longrightarrow> kd_round_to_int v = Inr 0) \<and>
   (py_float v = Inr (Fin x) \<longrightarrow>
      (\<bar>x - of_int (trunc_rat x)\<bar> \<le> 2 / 5 \<longrightarrow> kd_round_to_int v = Inr (trunc_rat x)) \<and>
      (1 / 2 \<le> \<bar>x - of_int (trunc_rat x)\<bar> \<longrightarrow>
         kd_round_to_int v = Inr (trunc_rat x + (if 0 \<le> x then 1 else - 1))) \<and>
      (2 / 5 < \<bar>x - of_int (trunc_rat x)\<bar> \<and> \<bar>x - of_int (trunc_rat x)\<bar> < 1 / 2 \<longrightarrow>
         kd_round_to_int v = Inr (trunc_rat x)))"
proof -
  have "kd_round_to_int v = Inr (kd_round_from x (trunc_rat x))" if "py_float v = Inr (Fin x)"
    using that by (rule kd_round_to_int_finite)
  then show ?thesis
    using kd_round_from_rule [of x "trunc_rat x"] kd_round_to_int_not_float [of v e] by simp
qed

theorem kd_round_to_int_rule_witness:
  "kd_round_to_int (JFloat (Fin (239 / 100))) = Inr 2 \<and>
   kd_round_to_int (JFloat (Fin (245 / 100))) = Inr 2 \<and>
   kd_round_to_int (JFloat (Fin (5 / 2))) = Inr 3 \<and>
   kd_round_to_int (JFloat (Fin (- (3 / 2)))) = Inr (- 2) \<and>
   kd_round_to_int (JStr ''n/a'') = Inr 0"
proof -
  have a: "kd_round_to_int (JFloat (Fin (239 / 100))) = Inr 2"
    using kd_round_to_int_rule [of "JFloat (Fin (239 / 100))" TypeError "239 / 100"]
    by (simp add: trunc_rat_numeral)
  have b: "kd_round_to_int (JFloat (Fin (245 / 100))) = Inr 2"
    using kd_round_to_int_rule [of "JFloat (Fin (245 / 100))" TypeError "245 / 100"]
    by (simp add: trunc_rat_numeral)
  have c: "kd_round_to_int (JFloat (Fin (5 / 2))) = Inr 3"
    using kd_round_to_int_rule [of "JFloat (Fin (5 / 2))" TypeError "5 / 2"]
    by (simp add: trunc_rat_numeral)
  have d: "kd_round_to_int (JFloat (Fin (- (3 / 2)))) = Inr (- 2)"
    using kd_round_to_int_rule [of "JFloat (Fin (- (3 / 2)))" TypeError "- (3 / 2)"]
    by (simp add: trunc_rat_numeral)
  have "py_float (JStr ''n/a'') = Inl ValueError"
    by (simp add: py_eval)
  then have e: "kd_round_to_int (JStr ''n/a'') = Inr 0"
    using kd_round_to_int_rule [of "JStr ''n/a''" ValueError 0] by blast
  from a b c d e show ?thesis by simp
qed

text \<open>
  C1. Every input that \<open>float\<close> rejects gives 0, and every finite number follows the
  rule above. The texts \<open>nan\<close>, \<open>inf\<close> and \<open>Infinity\<close> are accepted by
  \<open>float\<close>, and so are the float values themselves; for them \<open>int(n)\<close>, which
  stands outside the \<open>try\<close>, raises, and the function returns no integer.
\<close>

theorem kd_round_to_int_raises:
  "kd_round_to_int (JStr ''nan'') = Inl ValueError \<and>
   kd_round_to_int (JStr ''inf'') = Inl OverflowError \<and>
   kd_round_to_int (JStr ''Infinity'') = Inl OverflowError \<and>
   kd_round_to_int (JFloat NaN) = Inl ValueError"
  by (simp add: kd_round_to_int_def py_eval)

lemma kd_examples_str:
  "kd_round_to_int (JStr ''2.39'') = Inr 2"
  "kd_round_to_int (JStr ''2.45'') = Inr 2"
  "kd_round_to_int (JStr ''2.5'') = Inr 3"
  "kd_round_to_int (JStr ''-1.5'') = Inr (- 2)"
  by code_simp+

subsection \<open>The cache key\<close>

lemma replace_slash_id: "CHR ''/'' \<notin> set s \<Longrightarrow> replace_slash s = s"
  by (induction s) (auto simp add: replace_slash_def)

lemma split_at_first:
  assumes "c \<notin> set a" "c \<notin> set b" "a @ c # x = b @ c # y"
  shows "a = b \<and> x = y"
proof -
  have "takeWhile (\<lambda>z. z \<noteq> c) (a @ c # x) = a"
    using assms(1) by (induction a) auto
  moreover have "takeWhile (\<lambda>z. z \<noteq> c) (b @ c # y) = b"
    using assms(2) by (induction b) auto
  ultimately have "a = b" using assms(3) by simp
  with assms(3) show ?thesis by simp
qed

lemma cache_path_eq_key:
  "cache_path t1 g1 r1 = cache_path t2 g2 r2 \<longleftrightarrow> cache_key t1 g1 r1 = cache_key t2 g2 r2"
  by (simp add: cache_path_def)

text \<open>
  C8 (amended). The derivation of the cache path is injective on the triples whose
  three parts hold no slash and whose tournament id and group hold no underscore:
  two such triples with the same path are the same triple.
\<close>

theorem cache_path_injective_on_plain_keys:
  assumes slash: "CHR ''/'' \<notin> set (t1 @ g1 @ r1 @ t2 @ g2 @ r2)"
      and under: "CHR ''_'' \<notin> set (t1 @ g1 @ t2 @ g2)"
      and eq: "cache_path t1 g1 r1 = cache_path t2 g2 r2"
  shows "t1 = t2 \<and> g1 = g2 \<and> r1 = r2"
proof -
  have k1: "cache_key t1 g1 r1 = t1 @ ''__g='' @ g1 @ ''__r='' @ r1"
    unfolding cache_key_def using slash by (intro replace_slash_id) simp
  have k2: "cache_key t2 g2 r2 = t2 @ ''__g='' @ g2 @ ''__r='' @ r2"
    unfolding cache_key_def using slash by (intro replace_slash_id) simp
  from eq have "t1 @ ''__g='' @ g1 @ ''__r='' @ r1 = t2 @ ''__g='' @ g2 @ ''__r='' @ r2"
    by (simp add: cache_path_eq_key k1 k2)
  then have e: "t1 @ CHR ''_'' # (''_g='' @ g1 @ ''__r='' @ r1) = t2 @ CHR ''_'' # (''_g='' @ g2 @ ''__r='' @ r2)"
    by simp
  have t: "t1 = t2" and rest: "''_g='' @ g1 @ ''__r='' @ r1 = ''_g='' @ g2 @ ''__r='' @ r2"
    using split_at_first [OF _ _ e] under by simp_all
  from rest have "g1 @ CHR ''_'' # (''_r='' @ r1) = g2 @ CHR ''_'' # (''_r='' @ r2)"
    by simp
  then have "g1 = g2 \<and> ''_r='' @ r1 = ''_r='' @ r2"
    using under by (intro split_at_first) simp_all
  with t show ?thesis by simp
qed

text \<open>
  On all triples it is not injective: the slash is replaced by an underscore, and the
  separators are made of characters a part may hold.
\<close>

theorem cache_path_collision_counterexample:
  "cache_path ''a/b'' [] [] = cache_path ''a_b'' [] [] \<and> ''a/b'' \<noteq> ''a_b'' \<and>
   cache_path ''1__g=2'' ''3'' [] = cache_path ''1'' ''2__g=3'' []"
  by (simp add: cache_path_def cache_key_def replace_slash_def)

theorem cache_path_injective_on_plain_keys_witness:
  "cache_path ''2257'' ''A'' ''1'' \<noteq> cache_path ''2257'' ''B'' ''1''"
proof
  assume eq: "cache_path ''2257'' ''A'' ''1'' = cache_path ''2257'' ''B'' ''1''"
  have s: "CHR ''/'' \<notin> set (''2257'' @ ''A'' @ ''1'' @ ''2257'' @ ''B'' @ ''1'')" by simp
  have u: "CHR ''_'' \<notin> set (''2257'' @ ''A'' @ ''2257'' @ ''B'')" by simp
  from cache_path_injective_on_plain_keys [OF s u eq] show False by simp
qed

subsection \<open>The match pager\<close>

lemma fetch_stat_bind:
  "fetch_stat gd ds name mid =
     (case bind_err (gd mid) (\<lambda>mj. extract_player_stats_from_match ds mj name) of
        Inl e \<Rightarrow> None | Inr st \<Rightarrow> Some st)"
  by (simp add: fetch_stat_def bind_err_def split: sum.splits)

lemma collect_matches_map_filter:
  "collect_matches gd ds name acc ids = acc @ List.map_filter (fetch_stat gd ds name) ids"
proof (induction ids arbitrary: acc)
  case Nil
  show ?case by (simp add: List.map_filter_simps)
next
  case (Cons mid mids)
  show ?case
    by (cases "bind_err (gd mid) (\<lambda>mj. extract_player_stats_from_match ds mj name)")
       (simp_all add: Cons.IH fetch_stat_bind List.map_filter_simps)
qed

lemma py_slice_window:
  assumes "0 \<le> a" "0 \<le> n"
  shows "py_slice xs a (a + n) = take (nat n) (drop (nat a) xs)"
proof -
  have s: "clamp_index (int (length xs)) a = min (nat a) (length xs)"
    using assms by (simp add: clamp_index_def min_def)
  have e: "clamp_index (int (length xs)) (a + n) = min (nat a + nat n) (length xs)"
    using assms by (auto simp add: clamp_index_def min_def nat_add_distrib)
  show ?thesis
    unfolding py_slice_def s e
    by (auto simp add: drop_take min_def)
qed

lemma clamp_limit_range: "1 \<le> clamp_limit l" "clamp_limit l \<le> 50"
  by (simp_all add: clamp_limit_def)

lemma length_map_filter_le: "length (List.map_filter f xs) \<le> length xs"
  by (induction xs) (simp_all add: List.map_filter_simps split: option.splits)

lemma api_matches_slice:
  "resp_matches (api_matches gd ds name ids page limit) =
     List.map_filter (fetch_stat gd ds name)
       (take (nat (clamp_limit limit)) (drop (nat (max page 0 * clamp_limit limit)) ids))"
proof (cases "ids = []")
  case True
  then show ?thesis by (simp add: api_matches_def List.map_filter_simps)
next
  case False
  have "0 \<le> max page 0 * clamp_limit limit"
    using clamp_limit_range(1) [of limit] by simp
  moreover have "0 \<le> clamp_limit limit"
    using clamp_limit_range(1) [of limit] by simp
  ultimately show ?thesis
    using False by (simp add: api_matches_def collect_matches_map_filter py_slice_window)
qed

text \<open>
  C5. The limit is clamped into 1..50 and kept when it already lies there. The page
  processes the ids \<open>ids[page * limit : page * limit + limit]\<close> (a negative page
  counts as page 0, a page past the end is empty) and returns, in order, the records of
  the ids whose retrieval and extraction succeed, so at most \<open>limit\<close> records. With 25
  ids, page 2 and limit 10 only the ids from position 20 on are processed, and at most
  5 records come back.
\<close>

theorem api_matches_page:
  "resp_matches (api_matches gd ds name ids page limit) =
     List.map_filter (fetch_stat gd ds name)
       (take (nat (clamp_limit limit)) (drop (nat (max page 0 * clamp_limit limit)) ids)) \<and>
   1 \<le> clamp_limit limit \<and> clamp_limit limit \<le> 50 \<and>
   (1 \<le> limit \<and> limit \<le> 50 \<longrightarrow> clamp_limit limit = limit) \<and>
   (0 \<le> page \<longrightarrow> max page 0 = page) \<and>
   int (length (resp_matches (api_matches gd ds name ids page limit))) \<le> clamp_limit limit \<and>
   (length ids \<le> nat (max page 0 * clamp_limit limit) \<longrightarrow>
      resp_matches (api_matches gd ds name ids page limit) = []) \<and>
   (length ids = 25 \<longrightarrow>
      resp_matches (api_matches gd ds name ids 2 10) =
        List.map_filter (fetch_stat gd ds name) (drop 20 ids) \<and>
      length (resp_matches (api_matches gd ds name ids 2 10)) \<le> 5)"
proof -
  let ?L = "clamp_limit limit"
  have len: "int (length (resp_matches (api_matches gd ds name ids page limit))) \<le> ?L"
  proof -
    have "length (resp_matches (api_matches gd ds name ids page limit)) \<le> nat ?L"
      unfolding api_matches_slice
      by (rule order_trans [OF length_map_filter_le]) simp
    then show ?thesis using clamp_limit_range(1) [of limit] by linarith
  qed
  have past: "length ids \<le> nat (max page 0 * ?L) \<longrightarrow>
      resp_matches (api_matches gd ds name ids page limit) = []"
    by (simp add: api_matches_slice List.map_filter_simps)
  have ex: "length ids = 25 \<longrightarrow>
      resp_matches (api_matches gd ds name ids 2 10) =
        List.map_filter (fetch_stat gd ds name) (drop 20 ids) \<and>
      length (resp_matches (api_matches gd ds name ids 2 10)) \<le> 5"
  proof
    assume l: "length ids = 25"
    have c: "clamp_limit 10 = 10" by (simp add: clamp_limit_def)
    have m: "resp_matches (api_matches gd ds name ids 2 10) =
        List.map_filter (fetch_stat gd ds name) (drop 20 ids)"
      using l by (simp add: api_matches_slice c)
    have "length (List.map_filter (fetch_stat gd ds name) (drop 20 ids)) \<le> length (drop 20 ids)"
      by (rule length_map_filter_le)
    with m l show "resp_matches (api_matches gd ds name ids 2 10) =
        List.map_filter (fetch_stat gd ds name) (drop 20 ids) \<and>
      length (resp_matches (api_matches gd ds name ids 2 10)) \<le> 5" by simp
  qed
  have keep: "1 \<le> limit \<and> limit \<le> 50 \<longrightarrow> ?L = limit"
    by (simp add: clamp_limit_def)
  have pg: "0 \<le> page \<longrightarrow> max page 0 = page" by simp
  from api_matches_slice [of gd ds name ids page limit] clamp_limit_range [of limit]
    keep pg len past ex
  show ?thesis by blast
qed

lemma extract_empty_doc:
  "extract_player_stats_from_match ds (JObj []) name =
     Inr (default_stat JNull (JStr ''-'') (JStr ''-'') (JStr ''-''))"
  by (simp add: extract_player_stats_from_match_def bind_err_def dict_get_def py_or_def)

theorem api_matches_page_witness:
  "resp_matches (api_matches (\<lambda>mid. if mid = ''b'' then Inl ValueError else Inr (JObj []))
       (\<lambda>w r s. ''-'') ''bob'' [''a'', ''b'', ''c''] 0 99) =
     [default_stat JNull (JStr ''-'') (JStr ''-'') (JStr ''-''),
      default_stat JNull (JStr ''-'') (JStr ''-'') (JStr ''-'')] \<and>
   clamp_limit 99 = 50 \<and> clamp_limit 7 = 7 \<and>
   resp_matches (api_matches (\<lambda>mid. Inl ValueError) (\<lambda>w r s. ''-'') ''bob''
       (replicate 25 ''m'') 2 10) = []"
proof -
  let ?gd = "\<lambda>mid. if mid = ''b'' then Inl ValueError else Inr (JObj [])"
  let ?ds = "\<lambda>w r s. ''-''"
  have f: "fetch_stat ?gd ?ds ''bob'' ''a'' = Some (default_stat JNull (JStr ''-'') (JStr ''-'') (JStr ''-''))"
       "fetch_stat ?gd ?ds ''bob'' ''b'' = None"
       "fetch_stat ?gd ?ds ''bob'' ''c'' = Some (default_stat JNull (JStr ''-'') (JStr ''-'') (JStr ''-''))"
    by (simp_all add: fetch_stat_def extract_empty_doc)
  have c: "clamp_limit 99 = 50" "clamp_limit 7 = 7"
    by (simp_all add: clamp_limit_def)
  have a: "resp_matches (api_matches ?gd ?ds ''bob'' [''a'', ''b'', ''c''] 0 99) =
     [default_stat JNull (JStr ''-'') (JStr ''-'') (JStr ''-''),
      default_stat JNull (JStr ''-'') (JStr ''-'') (JStr ''-'')]"
    using api_matches_page [of ?gd ?ds "''bob''" "[''a'', ''b'', ''c'']" 0 99]
    by (simp add: c f List.map_filter_simps)
  have l: "length (replicate 25 ''m'') = 25" by simp
  have n: "fetch_stat (\<lambda>mid. Inl ValueError) ?ds ''bob'' = (\<lambda>mid. None)"
    by (rule ext) (simp add: fetch_stat_def)
  have "resp_matches (api_matches (\<lambda>mid. Inl ValueError) ?ds ''bob'' (replicate 25 ''m'') 2 10) =
      List.map_filter (fetch_stat (\<lambda>mid. Inl ValueError) ?ds ''bob'') (drop 20 (replicate 25 ''m''))"
    using api_matches_page [of "\<lambda>mid. Inl ValueError" ?ds "''bob''" "replicate 25 ''m''" 0 10] l
    by blast
  then have b: "resp_matches (api_matches (\<lambda>mid. Inl ValueError) ?ds ''bob'' (replicate 25 ''m'') 2 10) = []"
    by (simp add: n List.map_filter_def)
  from a b c show ?thesis by simp
qed

subsection \<open>The disk cache\<close>

lemma bitlen_nonneg: "0 \<le> bitlen n"
  by (induction n rule: bitlen.induct) (subst bitlen.simps, simp)

lemma bitlen_le: "n < 2 ^ k \<Longrightarrow> bitlen n \<le> int k"
proof (induction k arbitrary: n)
  case 0
  then show ?case by (subst bitlen.simps) simp
next
  case (Suc k)
  show ?case
  proof (cases "n \<le> 0")
    case True
    then show ?thesis by (subst bitlen.simps) simp
  next
    case False
    from Suc.prems have "n div 2 < 2 ^ k" by simp
    then have "bitlen (n div 2) \<le> int k" by (rule Suc.IH)
    with False show ?thesis by (subst bitlen.simps) simp
  qed
qed

lemma bitlen_one: "bitlen 1 = 1"
  by (simp add: bitlen.simps)

lemma ilog2_adjust_le: "ilog2_adjust p q d \<le> d"
  by (simp add: ilog2_adjust_def)

lemma round_half_even_one: "round_half_even n 1 = n"
  by (simp add: round_half_even_def)

lemma double_of_ratio_int:
  assumes "\<bar>t\<bar> < 2 ^ 53"
  shows "double_of_ratio t 1 = Fin (of_int t)"
proof (cases "t = 0")
  case True
  then show ?thesis by (simp add: double_of_ratio_def)
next
  case False
  define e where "e = double_exp \<bar>t\<bar> 1"
  have "bitlen \<bar>t\<bar> \<le> 53" using bitlen_le [of "\<bar>t\<bar>" 53] assms by simp
  then have "ilog2_ratio \<bar>t\<bar> 1 \<le> 52"
    using ilog2_adjust_le [of "\<bar>t\<bar>" 1 "bitlen \<bar>t\<bar> - bitlen 1"]
    by (simp add: ilog2_ratio_def bitlen_one)
  then have e: "e \<le> 0" by (simp add: e_def double_exp_def)
  then have ne: "nat e = 0" by simp
  have m: "double_significand \<bar>t\<bar> 1 e = \<bar>t\<bar> * 2 ^ nat (- e)"
    by (simp add: double_significand_def ne round_half_even_one)
  have small: "\<not> (0 \<le> e \<and> (2::int) ^ 1024 \<le> (\<bar>t\<bar> * 2 ^ nat (- e)) * 2 ^ nat e)"
  proof
    assume a: "0 \<le> e \<and> (2::int) ^ 1024 \<le> (\<bar>t\<bar> * 2 ^ nat (- e)) * 2 ^ nat e"
    with e have "e = 0" by simp
    with a have "(2::int) ^ 1024 \<le> \<bar>t\<bar>" by simp
    moreover have "(2::int) ^ 53 < 2 ^ 1024" by simp
    ultimately show False using assms by linarith
  qed
  have "pack_double (t < 0) e (\<bar>t\<bar> * 2 ^ nat (- e)) =
      Fin (of_int ((if t < 0 then - (\<bar>t\<bar> * 2 ^ nat (- e)) else \<bar>t\<bar> * 2 ^ nat (- e)) * 2 ^ nat e)
            / of_int (2 ^ nat (- e)))"
    unfolding pack_double_def by (simp only: small if_False)
  also have "\<dots> = Fin (of_int t)"
    by (simp add: ne)
  finally show ?thesis
    using False by (simp add: double_of_ratio_def m e_def [symmetric])
qed

lemma trunc_rat_near: "\<bar>x - of_int (trunc_rat x)\<bar> < 1"
  unfolding trunc_rat_def by (auto simp add: abs_if) linarith+

lemma bitlen_pos: "0 < n \<Longrightarrow> 0 < bitlen n"
  using bitlen_nonneg [of "n div 2"] by (subst bitlen.simps) simp

lemma bitlen_lower: "0 < n \<Longrightarrow> 2 ^ nat (bitlen n - 1) \<le> n"
proof (induction n rule: bitlen.induct)
  case (1 n)
  show ?case
  proof (cases "n = 1")
    case True
    then show ?thesis by (simp add: bitlen_one)
  next
    case False
    with 1 have h: "0 < n div 2" by simp
    then have ih: "2 ^ nat (bitlen (n div 2) - 1) \<le> n div 2" using 1 by simp
    have b: "bitlen n = 1 + bitlen (n div 2)" using 1 by (subst bitlen.simps) simp
    from bitlen_pos [OF h] have "nat (bitlen n - 1) = Suc (nat (bitlen (n div 2) - 1))"
      using b by simp
    then have "(2::int) ^ nat (bitlen n - 1) = 2 * 2 ^ nat (bitlen (n div 2) - 1)" by simp
    also have "\<dots> \<le> 2 * (n div 2)" using ih by simp
    also have "\<dots> \<le> n" by simp
    finally show ?thesis .
  qed
qed

lemma bitlen_upper: "n < 2 ^ nat (bitlen n)"
proof (induction n rule: bitlen.induct)
  case (1 n)
  show ?case
  proof (cases "n \<le> 0")
    case True
    have "(0::int) < 2 ^ nat (bitlen n)" by simp
    with True show ?thesis by linarith
  next
    case False
    then have ih: "n div 2 < 2 ^ nat (bitlen (n div 2))" using 1 by simp
    have b: "bitlen n = 1 + bitlen (n div 2)" using False by (subst bitlen.simps) simp
    have "nat (bitlen n) = Suc (nat (bitlen (n div 2)))"
      using b bitlen_nonneg [of "n div 2"] by simp
    then have e: "(2::int) ^ nat (bitlen n) = 2 * 2 ^ nat (bitlen (n div 2))" by simp
    from ih have "n div 2 + 1 \<le> 2 ^ nat (bitlen (n div 2))" by simp
    then have "2 * (n div 2) + 2 \<le> 2 * 2 ^ nat (bitlen (n div 2))" by simp
    moreover have "n < 2 * (n div 2) + 2" by presburger
    ultimately show ?thesis using e by simp
  qed
qed


lemma bitlen_lower_rat: "0 < n \<Longrightarrow> (2::rat) powi (bitlen n - 1) \<le> of_int n"
proof -
  assume n: "0 < n"
  from bitlen_pos [OF n] have "(2::rat) powi (bitlen n - 1) = 2 ^ nat (bitlen n - 1)"
    by (simp add: power_int_def)
  also have "\<dots> = of_int (2 ^ nat (bitlen n - 1))" by simp
  also have "\<dots> \<le> of_int n" using bitlen_lower [OF n] by (simp only: of_int_le_iff)
  finally show ?thesis .
qed

lemma bitlen_upper_rat: "(of_int n :: rat) < 2 powi (bitlen n)"
proof -
  have "(of_int n :: rat) < of_int (2 ^ nat (bitlen n))"
    using bitlen_upper [of n] by (simp only: of_int_less_iff)
  also have "\<dots> = 2 powi (bitlen n)"
    using bitlen_nonneg [of n] by (simp add: power_int_def)
  finally show ?thesis .
qed

lemma pow2_le_ratio:
  assumes "0 < q"
  shows "(if 0 \<le> d then q * 2 ^ nat d \<le> p else q \<le> p * 2 ^ nat (- d)) =
         ((2::rat) powi d \<le> of_int p / of_int q)"
proof (cases "0 \<le> d")
  case True
  have "((2::rat) powi d \<le> of_int p / of_int q) = ((2::rat) ^ nat d * of_int q \<le> of_int p)"
    using assms True by (simp add: power_int_def pos_le_divide_eq)
  also have "\<dots> = ((of_int (q * 2 ^ nat d) :: rat) \<le> of_int p)"
    by (simp add: mult.commute)
  also have "\<dots> = (q * 2 ^ nat d \<le> p)" by (simp only: of_int_le_iff)
  finally show ?thesis using True by simp
next
  case False
  have "((2::rat) powi d \<le> of_int p / of_int q) = ((of_int q :: rat) \<le> of_int p * 2 ^ nat (- d))"
    using assms False by (simp add: power_int_def field_simps)
  also have "\<dots> = ((of_int q :: rat) \<le> of_int (p * 2 ^ nat (- d)))" by simp
  also have "\<dots> = (q \<le> p * 2 ^ nat (- d))" by (simp only: of_int_le_iff)
  finally show ?thesis using False by simp
qed

lemma ilog2_adjust_rat:
  "0 < q \<Longrightarrow>
     ilog2_adjust p q d = (if (2::rat) powi d \<le> of_int p / of_int q then d else d - 1)"
  unfolding ilog2_adjust_def by (simp only: pow2_le_ratio)

lemma ilog2_lower:
  assumes "0 < p" "0 < q"
  shows "(2::rat) powi (ilog2_ratio p q) \<le> of_int p / of_int q"
proof (cases "(2::rat) powi (bitlen p - bitlen q) \<le> of_int p / of_int q")
  case True
  then show ?thesis
    by (simp add: ilog2_ratio_def ilog2_adjust_rat [OF assms(2)])
next
  case False
  then have r: "ilog2_ratio p q = (bitlen p - 1) + (- bitlen q)"
    by (simp add: ilog2_ratio_def ilog2_adjust_rat [OF assms(2)])
  have "(2::rat) powi ((bitlen p - 1) + (- bitlen q)) = 2 powi (bitlen p - 1) * 2 powi (- bitlen q)"
    by (rule power_int_add) simp
  also have "\<dots> = 2 powi (bitlen p - 1) / 2 powi (bitlen q)"
    by (simp add: power_int_minus divide_inverse)
  also have "\<dots> \<le> of_int p / 2 powi (bitlen q)"
    using bitlen_lower_rat [OF assms(1)] by (simp add: divide_right_mono)
  also have "\<dots> \<le> of_int p / of_int q"
    using bitlen_upper_rat [of q] assms by (simp add: frac_le)
  finally show ?thesis by (simp only: r)
qed

lemma round_half_even_upper:
  assumes "0 < d" "n \<le> c * d"
  shows "round_half_even n d \<le> c"
proof -
  have le: "n div d \<le> c"
    using zdiv_mono1 [OF assms(2) assms(1)] assms(1) by simp
  show ?thesis
  proof (cases "n div d = c")
    case True
    have "n = d * (n div d) + n mod d" by simp
    with True have "n = d * c + n mod d" by simp
    moreover have "0 \<le> n mod d" using assms(1) by simp
    ultimately have "n mod d = 0" using assms(2) by (simp add: mult.commute)
    with True assms(1) show ?thesis by (simp add: round_half_even_def)
  next
    case False
    with le have "n div d + 1 \<le> c" by simp
    then show ?thesis by (simp add: round_half_even_def)
  qed
qed

lemma round_half_even_lower:
  assumes "0 < d" "c * d \<le> n"
  shows "c \<le> round_half_even n d"
proof -
  have "c \<le> n div d"
    using zdiv_mono1 [OF assms(2) assms(1)] assms(1) by simp
  then show ?thesis by (simp add: round_half_even_def)
qed

lemma double_exp_nonpos:
  assumes "0 < p" "0 < q" "p \<le> k * q" "k < 2 ^ 53"
  shows "double_exp p q \<le> 0"
proof -
  have "(2::rat) powi (ilog2_ratio p q) \<le> of_int p / of_int q"
    using assms(1,2) by (rule ilog2_lower)
  also have "of_int p / of_int q \<le> (of_int k :: rat)"
  proof -
    have "(of_int p :: rat) \<le> of_int (k * q)" using assms(3) by (simp only: of_int_le_iff)
    then show ?thesis using assms(2) by (simp add: pos_divide_le_eq)
  qed
  also have "(of_int k :: rat) < of_int (2 ^ 53)" using assms(4) by (simp only: of_int_less_iff)
  also have "(of_int (2 ^ 53) :: rat) = 2 powi 53" by simp
  finally have "ilog2_ratio p q < 53"
    by (rule power_int_le_imp_less_exp [rotated]) simp_all
  then show ?thesis by (simp add: double_exp_def)
qed


lemma double_of_ratio_upper:
  assumes "0 < p" "0 < q" "p \<le> k * q" "k < 2 ^ 53"
  shows "\<exists>y. double_of_ratio p q = Fin y \<and> y \<le> of_int k"
proof -
  define e where "e = double_exp p q"
  define s where "s = nat (- e)"
  define m where "m = double_significand p q e"
  have e: "e \<le> 0" unfolding e_def using assms by (rule double_exp_nonpos)
  then have ne: "nat e = 0" by simp
  have "p * 2 ^ s \<le> (k * 2 ^ s) * q" using assms(3) by (simp add: mult.assoc mult.left_commute)
  with assms(2) have "round_half_even (p * 2 ^ s) q \<le> k * 2 ^ s"
    by (rule round_half_even_upper)
  then have m: "m \<le> k * 2 ^ s" by (simp add: m_def double_significand_def ne s_def)
  have small: "\<not> (0 \<le> e \<and> (2::int) ^ 1024 \<le> m * 2 ^ nat e)"
  proof
    assume a: "0 \<le> e \<and> (2::int) ^ 1024 \<le> m * 2 ^ nat e"
    with e have "e = 0" by simp
    with a m have "(2::int) ^ 1024 \<le> k" by (simp add: s_def)
    moreover have "(2::int) ^ 53 < 2 ^ 1024" by simp
    ultimately show False using assms(4) by linarith
  qed
  have "pack_double False e m = Fin (of_int ((if False then - m else m) * 2 ^ nat e) / of_int (2 ^ nat (- e)))"
    unfolding pack_double_def by (simp only: small if_False)
  also have "\<dots> = Fin (of_int m / of_int (2 ^ s))" by (simp add: ne s_def)
  finally have pk: "pack_double False e m = Fin (of_int m / of_int (2 ^ s))" .
  have "(of_int m :: rat) \<le> of_int (k * 2 ^ s)" using m by (simp only: of_int_le_iff)
  then have "(of_int m :: rat) / of_int (2 ^ s) \<le> of_int k"
    by (simp add: pos_divide_le_eq)
  moreover have "double_of_ratio p q = Fin (of_int m / of_int (2 ^ s))"
    using assms(1) pk by (simp add: double_of_ratio_def e_def m_def)
  ultimately show ?thesis by blast
qed

lemma pack_double_lower:
  assumes "k * 2 ^ nat (- e) \<le> m * 2 ^ nat e"
  shows "pack_double False e m = PInf \<or> (\<exists>y. pack_double False e m = Fin y \<and> of_int k \<le> y)"
proof (cases "0 \<le> e \<and> (2::int) ^ 1024 \<le> m * 2 ^ nat e")
  case True
  then show ?thesis by (simp add: pack_double_def)
next
  case False
  have "pack_double False e m = Fin (of_int ((if False then - m else m) * 2 ^ nat e) / of_int (2 ^ nat (- e)))"
    unfolding pack_double_def by (simp only: False if_False)
  then have pk: "pack_double False e m = Fin (of_int (m * 2 ^ nat e) / of_int (2 ^ nat (- e)))"
    by simp
  have "(of_int (k * 2 ^ nat (- e)) :: rat) \<le> of_int (m * 2 ^ nat e)"
    using assms by (simp only: of_int_le_iff)
  then have "(of_int k :: rat) \<le> of_int (m * 2 ^ nat e) / of_int (2 ^ nat (- e))"
    by (simp add: pos_le_divide_eq)
  with pk show ?thesis by blast
qed

lemma double_of_ratio_lower:
  assumes "0 < q" "k * q \<le> p" "0 < k" "k \<le> 2 ^ 52"
  shows "double_of_ratio p q = PInf \<or> (\<exists>y. double_of_ratio p q = Fin y \<and> of_int k \<le> y)"
proof -
  define e where "e = double_exp p q"
  define m where "m = double_significand p q e"
  have "0 < k * q" using assms(1,3) by simp
  with assms(2) have p: "0 < p" by linarith
  have d: "double_of_ratio p q = pack_double False e m"
    using p by (simp add: double_of_ratio_def e_def m_def)
  have "k * 2 ^ nat (- e) \<le> m * 2 ^ nat e"
  proof (cases "e \<le> 0")
    case True
    then have ne: "nat e = 0" by simp
    have "(k * 2 ^ nat (- e)) * q \<le> p * 2 ^ nat (- e)"
      using assms(2) by (simp add: mult.assoc mult.left_commute)
    with assms(1) have "k * 2 ^ nat (- e) \<le> round_half_even (p * 2 ^ nat (- e)) q"
      by (rule round_half_even_lower)
    then show ?thesis by (simp add: m_def double_significand_def ne)
  next
    case False
    then have pos: "0 < e" by simp
    then have r: "ilog2_ratio p q = e + 52" by (simp add: e_def double_exp_def max_def split: if_splits)
    have "(2::rat) powi (e + 52) \<le> of_int p / of_int q"
      using ilog2_lower [OF p assms(1)] by (simp only: r)
    moreover have "(2::rat) powi (e + 52) = of_int (2 ^ 52 * 2 ^ nat e)"
      using pos by (simp add: power_int_def nat_add_distrib power_add)
    ultimately have "(of_int (2 ^ 52 * 2 ^ nat e) :: rat) * of_int q \<le> of_int p"
      using assms(1) by (simp add: pos_le_divide_eq)
    then have "(of_int ((2 ^ 52 * 2 ^ nat e) * q) :: rat) \<le> of_int p" by simp
    then have "(2 ^ 52 * 2 ^ nat e) * q \<le> p" by (simp only: of_int_le_iff)
    then have "2 ^ 52 * (q * 2 ^ nat e) \<le> p" by (simp add: ac_simps)
    moreover have "0 < q * 2 ^ nat e" using assms(1) by simp
    ultimately have "2 ^ 52 \<le> round_half_even p (q * 2 ^ nat e)"
      by (rule round_half_even_lower [rotated])
    then have m52: "2 ^ 52 \<le> m" using pos by (simp add: m_def double_significand_def)
    have "k * 2 ^ nat (- e) = k" using pos by simp
    also have "k \<le> m" using m52 assms(4) by linarith
    also have "m \<le> m * 2 ^ nat e"
    proof -
      have "0 \<le> m" using m52 by (rule order_trans [rotated]) simp
      moreover have "(1::int) \<le> 2 ^ nat e" by simp
      ultimately show ?thesis using mult_left_mono [of 1 "2 ^ nat e" m] by simp
    qed
    finally show ?thesis .
  qed
  then show ?thesis unfolding d by (rule pack_double_lower)
qed

lemma double_of_ratio_negative:
  assumes "p < 0" "0 < q"
  shows "double_of_ratio p q = NInf \<or> (\<exists>y. double_of_ratio p q = Fin y \<and> y \<le> 0)"
proof -
  define e where "e = double_exp \<bar>p\<bar> q"
  define m where "m = double_significand \<bar>p\<bar> q e"
  have d: "double_of_ratio p q = pack_double True e m"
    using assms(1) by (simp add: double_of_ratio_def e_def m_def)
  have "0 < q * 2 ^ nat e" using assms(2) by simp
  moreover have "0 * (q * 2 ^ nat e) \<le> \<bar>p\<bar> * 2 ^ nat (- e)" by simp
  ultimately have "0 \<le> round_half_even (\<bar>p\<bar> * 2 ^ nat (- e)) (q * 2 ^ nat e)"
    by (rule round_half_even_lower)
  then have m: "0 \<le> m" by (simp add: m_def double_significand_def)
  show ?thesis
  proof (cases "0 \<le> e \<and> (2::int) ^ 1024 \<le> m * 2 ^ nat e")
    case True
    then show ?thesis by (simp add: d pack_double_def)
  next
    case False
    have "pack_double True e m = Fin (of_int ((if True then - m else m) * 2 ^ nat e) / of_int (2 ^ nat (- e)))"
      unfolding pack_double_def by (simp only: False if_False)
    then have pk: "pack_double True e m = Fin (of_int (- m * 2 ^ nat e) / of_int (2 ^ nat (- e)))"
      by simp
    have "- m * 2 ^ nat e \<le> 0" using m by (simp add: mult_nonneg_nonneg)
    then have "(of_int (- m * 2 ^ nat e) :: rat) \<le> 0" by (simp only: of_int_le_0_iff)
    then have "(of_int (- m * 2 ^ nat e) :: rat) / of_int (2 ^ nat (- e)) \<le> 0"
      by (simp add: divide_le_0_iff)
    with pk d show ?thesis by simp
  qed
qed


lemma round_double_upper:
  assumes "0 < k" "k < 2 ^ 53" "x \<le> of_int k"
  shows "float_le (round_double x) (of_int k)"
proof -
  obtain p q where pq: "quotient_of x = (p, q)" by (cases "quotient_of x")
  then have q: "0 < q" by (rule quotient_of_denom_pos)
  from pq have x: "x = of_int p / of_int q" by (rule quotient_of_div)
  have rd: "round_double x = double_of_ratio p q" by (simp add: round_double_def pq)
  consider "p = 0" | "p < 0" | "0 < p" by linarith
  then show ?thesis
  proof cases
    case 1
    then show ?thesis using assms(1) by (simp add: rd double_of_ratio_def)
  next
    case 2
    from double_of_ratio_negative [OF 2 q] show ?thesis
    proof
      assume "double_of_ratio p q = NInf"
      then show ?thesis by (simp add: rd)
    next
      assume "\<exists>y. double_of_ratio p q = Fin y \<and> y \<le> 0"
      then obtain y where "double_of_ratio p q = Fin y" "y \<le> 0" by blast
      moreover have "(0::rat) \<le> of_int k" using assms(1) by simp
      ultimately show ?thesis by (simp add: rd)
    qed
  next
    case 3
    have "(of_int p :: rat) \<le> of_int k * of_int q"
      using assms(3) q by (simp add: x pos_divide_le_eq)
    then have "(of_int p :: rat) \<le> of_int (k * q)" by simp
    then have "p \<le> k * q" by (simp only: of_int_le_iff)
    from double_of_ratio_upper [OF 3 q this assms(2)] show ?thesis by (auto simp add: rd)
  qed
qed

lemma round_double_lower:
  assumes "0 < k" "k \<le> 2 ^ 52" "of_int k \<le> x" "c < of_int k"
  shows "\<not> float_le (round_double x) c"
proof -
  obtain p q where pq: "quotient_of x = (p, q)" by (cases "quotient_of x")
  then have q: "0 < q" by (rule quotient_of_denom_pos)
  from pq have x: "x = of_int p / of_int q" by (rule quotient_of_div)
  have rd: "round_double x = double_of_ratio p q" by (simp add: round_double_def pq)
  have "(of_int k :: rat) * of_int q \<le> of_int p"
    using assms(3) q by (simp add: x pos_le_divide_eq)
  then have "(of_int (k * q) :: rat) \<le> of_int p" by simp
  then have "k * q \<le> p" by (simp only: of_int_le_iff)
  from double_of_ratio_lower [OF q this assms(1,2)] show ?thesis
  proof
    assume "double_of_ratio p q = PInf"
    then show ?thesis by (simp add: rd)
  next
    assume "\<exists>y. double_of_ratio p q = Fin y \<and> of_int k \<le> y"
    then obtain y where "double_of_ratio p q = Fin y" "of_int k \<le> y" by blast
    with assms(4) show ?thesis by (simp add: rd)
  qed
qed

lemma within_age_hit: "x \<le> CACHE_TTL_SEC \<Longrightarrow> float_le (round_double x) CACHE_TTL_SEC"
  using round_double_upper [of 21600 x] by (simp add: CACHE_TTL_SEC_def)

lemma beyond_age_miss: "CACHE_TTL_SEC + 1 \<le> x \<Longrightarrow> \<not> float_le (round_double x) CACHE_TTL_SEC"
  using round_double_lower [of 21601 x 21600] by (simp add: CACHE_TTL_SEC_def)

lemma load_object:
  assumes "other (cache_path tid grp rnd) = Text body" "loads body = Some (JObj d)"
  shows "load_cache loads other now tid grp rnd =
           Inr (if within_ttl now (dict_get d ''_ts'' (JInt 0)) = Inr True
                then none_if_null (dict_get d ''data'' JNull) else None)"
  using assms
  by (cases "within_ttl now (dict_get d ''_ts'' (JInt 0))")
     (auto simp add: load_cache_def bind_err_def)

lemma load_not_object:
  assumes "other (cache_path tid grp rnd) = Text body" "loads body = Some obj" "\<forall>d. obj \<noteq> JObj d"
  shows "load_cache loads other now tid grp rnd = Inr None"
  using assms by (cases obj) (simp_all add: load_cache_def bind_err_def)

lemma within_ttl_stamp:
  assumes "\<bar>ts\<bar> < 2 ^ 53"
  shows "within_ttl now (JInt ts) = Inr (float_le (round_double (now - of_int ts)) CACHE_TTL_SEC)"
  by (simp add: double_of_ratio_int [OF assms])

lemma load_after_save:
  assumes rt: "loads (dumps (JObj [(''_ts'', JInt (trunc_rat saved)), (''data'', JArr rows)])) =
                 Some (JObj [(''_ts'', JInt (trunc_rat saved)), (''data'', JArr rows)])"
      and rng: "\<bar>trunc_rat saved\<bar> < 2 ^ 53"
  shows "load_cache loads
           (files (cache_path tid grp rnd :=
              Text (dumps (JObj [(''_ts'', JInt (trunc_rat saved)), (''data'', JArr rows)]))))
           now tid grp rnd =
         Inr (if float_le (round_double (now - of_int (trunc_rat saved))) CACHE_TTL_SEC
              then Some (JArr rows) else None)"
  by (simp add: load_cache_def rt bind_err_def dict_get_def double_of_ratio_int [OF rng]
      none_if_null_def)


text \<open>
  C2. When the cache file can be written, a list of rows stored by \<^const>\<open>save_cache\<close> at
  the clock reading \<open>saved\<close> is returned unchanged by \<^const>\<open>load_cache\<close> for the same triple
  at the clock reading \<open>now\<close> exactly when the age of the entry, computed as the program
  computes it, is at most \<^const>\<open>CACHE_TTL_SEC\<close>: the age is the double nearest to \<open>now\<close>
  minus the stored timestamp, and the stored timestamp is \<open>saved\<close> cut to whole seconds
  (\<open>int(time.time())\<close>). So an immediate read is a hit; a read is a hit whenever \<open>now\<close>
  minus the stored timestamp is at most the time-to-live, in particular whenever at most
  the time-to-live less one second has gone by; and it is a miss once \<open>now\<close> minus the
  stored timestamp reaches the time-to-live plus one second. Less than the time-to-live of
  elapsed time is not enough for a hit, as the entry is dated from the start of its second.

  A read is also a miss when the file is absent or cannot be read, when its text is not
  JSON, and when the JSON is not an object. For an object the result is its \<open>data\<close> entry
  when the age test on its \<open>_ts\<close> entry (0 when that is missing) succeeds, and a miss when
  the test fails or raises, or the \<open>data\<close> are missing or null; data of any other shape
  are returned as they are. \<open>OSError\<close> is raised, not a miss reported, when the operating
  system rejects the path in \<open>p.exists()\<close>, and by \<open>save_cache\<close> when the write fails.
  The JSON serialisation is a parameter: the hypothesis \<open>rt\<close> states that the written
  entry parses back to itself. The timestamp is assumed to be below \<open>2 ^ 53\<close> in
  magnitude, so that it is an exact double.
\<close>
theorem cache_roundtrip_by_stored_age:
  assumes rt: "loads (dumps (JObj [(''_ts'', JInt (trunc_rat saved)), (''data'', JArr rows)])) =
                 Some (JObj [(''_ts'', JInt (trunc_rat saved)), (''data'', JArr rows)])"
      and rng: "\<bar>trunc_rat saved\<bar> < 2 ^ 53"
      and wr: "writable (cache_path tid grp rnd)"
  shows "(\<exists>stored.
            save_cache dumps writable files saved tid grp rnd (JArr rows) = Inr stored \<and>
            load_cache loads stored now tid grp rnd =
              Inr (if float_le (round_double (now - of_int (trunc_rat saved))) CACHE_TTL_SEC
                   then Some (JArr rows) else None) \<and>
            load_cache loads stored saved tid grp rnd = Inr (Some (JArr rows)) \<and>
            (now - of_int (trunc_rat saved) \<le> CACHE_TTL_SEC \<longrightarrow>
               load_cache loads stored now tid grp rnd = Inr (Some (JArr rows))) \<and>
            (now - saved \<le> CACHE_TTL_SEC - 1 \<longrightarrow>
               load_cache loads stored now tid grp rnd = Inr (Some (JArr rows))) \<and>
            (CACHE_TTL_SEC + 1 \<le> now - of_int (trunc_rat saved) \<longrightarrow>
               load_cache loads stored now tid grp rnd = Inr None))
       \<and> (\<not> locked (cache_path tid grp rnd) \<longrightarrow>
            save_cache dumps locked files saved tid grp rnd (JArr rows) = Inl OSError)
       \<and> (other (cache_path tid grp rnd) = Unusable \<longrightarrow>
            load_cache loads other now tid grp rnd = Inl OSError)
       \<and> (other (cache_path tid grp rnd) = Absent \<longrightarrow>
            load_cache loads other now tid grp rnd = Inr None)
       \<and> (other (cache_path tid grp rnd) = Unreadable \<longrightarrow>
            load_cache loads other now tid grp rnd = Inr None)
       \<and> (other (cache_path tid grp rnd) = Text body \<and> loads body = None \<longrightarrow>
            load_cache loads other now tid grp rnd = Inr None)
       \<and> (other (cache_path tid grp rnd) = Text body \<and> loads body = Some obj \<and>
            (\<forall>d. obj \<noteq> JObj d) \<longrightarrow>
            load_cache loads other now tid grp rnd = Inr None)
       \<and> (other (cache_path tid grp rnd) = Text body \<and> loads body = Some (JObj d) \<longrightarrow>
            load_cache loads other now tid grp rnd =
              Inr (if within_ttl now (dict_get d ''_ts'' (JInt 0)) = Inr True
                   then none_if_null (dict_get d ''data'' JNull) else None))
       \<and> (\<bar>ts\<bar> < 2 ^ 53 \<longrightarrow>
            within_ttl now (JInt ts) =
              Inr (float_le (round_double (now - of_int ts)) CACHE_TTL_SEC) \<and>
            (now - of_int ts \<le> CACHE_TTL_SEC \<longrightarrow> within_ttl now (JInt ts) = Inr True) \<and>
            (CACHE_TTL_SEC + 1 \<le> now - of_int ts \<longrightarrow> within_ttl now (JInt ts) = Inr False))"
proof -
  define stored where "stored = files (cache_path tid grp rnd :=
      Text (dumps (JObj [(''_ts'', JInt (trunc_rat saved)), (''data'', JArr rows)])))"
  have sv: "save_cache dumps writable files saved tid grp rnd (JArr rows) = Inr stored"
    using wr by (simp add: save_cache_def stored_def)
  have las: "load_cache loads stored t tid grp rnd =
      Inr (if float_le (round_double (t - of_int (trunc_rat saved))) CACHE_TTL_SEC
           then Some (JArr rows) else None)" for t
    unfolding stored_def using rt rng by (rule load_after_save)
  have near: "\<bar>saved - of_int (trunc_rat saved)\<bar> < 1" by (rule trunc_rat_near)
  have ttl: "(1::rat) \<le> CACHE_TTL_SEC" by (simp add: CACHE_TTL_SEC_def)
  have hit: "t - of_int (trunc_rat saved) \<le> CACHE_TTL_SEC \<Longrightarrow>
      load_cache loads stored t tid grp rnd = Inr (Some (JArr rows))" for t
    by (simp add: las within_age_hit)
  have "saved - of_int (trunc_rat saved) \<le> CACHE_TTL_SEC" using near ttl by linarith
  then have a: "load_cache loads stored saved tid grp rnd = Inr (Some (JArr rows))" by (rule hit)
  have b: "now - of_int (trunc_rat saved) \<le> CACHE_TTL_SEC \<longrightarrow>
      load_cache loads stored now tid grp rnd = Inr (Some (JArr rows))"
    using hit by blast
  have c: "now - saved \<le> CACHE_TTL_SEC - 1 \<longrightarrow>
      load_cache loads stored now tid grp rnd = Inr (Some (JArr rows))"
  proof
    assume "now - saved \<le> CACHE_TTL_SEC - 1"
    with near have "now - of_int (trunc_rat saved) \<le> CACHE_TTL_SEC" by linarith
    then show "load_cache loads stored now tid grp rnd = Inr (Some (JArr rows))" by (rule hit)
  qed
  have d: "CACHE_TTL_SEC + 1 \<le> now - of_int (trunc_rat saved) \<longrightarrow>
      load_cache loads stored now tid grp rnd = Inr None"
    by (simp add: las beyond_age_miss)
  have first: "\<exists>stored.
            save_cache dumps writable files saved tid grp rnd (JArr rows) = Inr stored \<and>
            load_cache loads stored now tid grp rnd =
              Inr (if float_le (round_double (now - of_int (trunc_rat saved))) CACHE_TTL_SEC
                   then Some (JArr rows) else None) \<and>
            load_cache loads stored saved tid grp rnd = Inr (Some (JArr rows)) \<and>
            (now - of_int (trunc_rat saved) \<le> CACHE_TTL_SEC \<longrightarrow>
               load_cache loads stored now tid grp rnd = Inr (Some (JArr rows))) \<and>
            (now - saved \<le> CACHE_TTL_SEC - 1 \<longrightarrow>
               load_cache loads stored now tid grp rnd = Inr (Some (JArr rows))) \<and>
            (CACHE_TTL_SEC + 1 \<le> now - of_int (trunc_rat saved) \<longrightarrow>
               load_cache loads stored now tid grp rnd = Inr None)"
    using sv las [of now] a b c d by blast
  have e: "\<not> locked (cache_path tid grp rnd) \<longrightarrow>
            save_cache dumps locked files saved tid grp rnd (JArr rows) = Inl OSError"
    by (simp add: save_cache_def)
  have f: "other (cache_path tid grp rnd) = Unusable \<longrightarrow>
            load_cache loads other now tid grp rnd = Inl OSError"
    by (simp add: load_cache_def)
  have g: "other (cache_path tid grp rnd) = Absent \<longrightarrow>
            load_cache loads other now tid grp rnd = Inr None"
    by (simp add: load_cache_def)
  have h: "other (cache_path tid grp rnd) = Unreadable \<longrightarrow>
            load_cache loads other now tid grp rnd = Inr None"
    by (simp add: load_cache_def)
  have i: "other (cache_path tid grp rnd) = Text body \<and> loads body = None \<longrightarrow>
            load_cache loads other now tid grp rnd = Inr None"
    by (simp add: load_cache_def)
  have j: "other (cache_path tid grp rnd) = Text body \<and> loads body = Some obj \<and>
            (\<forall>d. obj \<noteq> JObj d) \<longrightarrow>
            load_cache loads other now tid grp rnd = Inr None"
    by (auto intro: load_not_object)
  have k: "other (cache_path tid grp rnd) = Text body \<and> loads body = Some (JObj d) \<longrightarrow>
            load_cache loads other now tid grp rnd =
              Inr (if within_ttl now (dict_get d ''_ts'' (JInt 0)) = Inr True
                   then none_if_null (dict_get d ''data'' JNull) else None)"
  proof (intro impI, elim conjE)
    assume "other (cache_path tid grp rnd) = Text body" "loads body = Some (JObj d)"
    then show "load_cache loads other now tid grp rnd =
              Inr (if within_ttl now (dict_get d ''_ts'' (JInt 0)) = Inr True
                   then none_if_null (dict_get d ''data'' JNull) else None)"
      by (rule load_object)
  qed
  have l: "\<bar>ts\<bar> < 2 ^ 53 \<longrightarrow>
            within_ttl now (JInt ts) =
              Inr (float_le (round_double (now - of_int ts)) CACHE_TTL_SEC) \<and>
            (now - of_int ts \<le> CACHE_TTL_SEC \<longrightarrow> within_ttl now (JInt ts) = Inr True) \<and>
            (CACHE_TTL_SEC + 1 \<le> now - of_int ts \<longrightarrow> within_ttl now (JInt ts) = Inr False)"
  proof
    assume r: "\<bar>ts\<bar> < 2 ^ 53"
    show "within_ttl now (JInt ts) =
              Inr (float_le (round_double (now - of_int ts)) CACHE_TTL_SEC) \<and>
            (now - of_int ts \<le> CACHE_TTL_SEC \<longrightarrow> within_ttl now (JInt ts) = Inr True) \<and>
            (CACHE_TTL_SEC + 1 \<le> now - of_int ts \<longrightarrow> within_ttl now (JInt ts) = Inr False)"
      unfolding within_ttl_stamp [OF r] by (simp add: within_age_hit beyond_age_miss)
  qed
  from first e f g h i j k l show ?thesis by (intro conjI)
qed


theorem cache_miss_before_ttl_counterexample:
  "(43199 / 2 :: rat) < CACHE_TTL_SEC \<and>
   (\<exists>stored.
      save_cache (\<lambda>j. j) (\<lambda>p. True) (\<lambda>p. Absent) (6800000003 / 4) ''2257'' ''A'' ''1''
        (JArr [JObj [(''ign'', JStr ''Bob'')]]) = Inr stored \<and>
      load_cache (\<lambda>j. Some j) stored (6800000003 / 4 + 43199 / 2) ''2257'' ''A'' ''1'' = Inr None)"
proof -
  let ?t = "6800000003 / 4 :: rat"
  let ?rows = "[JObj [(''ign'', JStr ''Bob'')]]"
  let ?stored = "(\<lambda>p. Absent) (cache_path ''2257'' ''A'' ''1'' :=
      Text (JObj [(''_ts'', JInt (trunc_rat ?t)), (''data'', JArr ?rows)]))"
  have tr: "trunc_rat ?t = 1700000000" by (simp add: trunc_rat_numeral)
  have rng: "\<bar>trunc_rat ?t\<bar> < 2 ^ 53" by (simp add: tr)
  have sv: "save_cache (\<lambda>j. j) (\<lambda>p. True) (\<lambda>p. Absent) ?t ''2257'' ''A'' ''1'' (JArr ?rows) =
      Inr ?stored"
    by (simp add: save_cache_def)
  have age: "\<not> float_le (round_double (86401 / 4)) CACHE_TTL_SEC" by code_simp
  have ld0: "load_cache (\<lambda>j. Some j) ?stored (?t + 43199 / 2) ''2257'' ''A'' ''1'' =
      Inr (if float_le (round_double (?t + 43199 / 2 - of_int (trunc_rat ?t))) CACHE_TTL_SEC
           then Some (JArr ?rows) else None)"
    using rng by (intro load_after_save) simp_all
  have eq: "?t + 43199 / 2 - of_int (trunc_rat ?t) = 86401 / 4" by (simp add: tr)
  have ld: "load_cache (\<lambda>j. Some j) ?stored (?t + 43199 / 2) ''2257'' ''A'' ''1'' = Inr None"
    by (simp only: ld0 eq age if_False)
  have "(43199 / 2 :: rat) < CACHE_TTL_SEC" by (simp add: CACHE_TTL_SEC_def)
  with sv ld show ?thesis by blast
qed

theorem cache_roundtrip_by_stored_age_witness:
  "(\<exists>stored.
      save_cache (\<lambda>j. j) (\<lambda>p. True) (\<lambda>p. Absent) (6800000003 / 4) ''2257'' ''A'' ''1''
        (JArr [JObj [(''ign'', JStr ''Bob'')]]) = Inr stored \<and>
      load_cache (\<lambda>j. if j = JNull then None else Some j) stored
        (6800000003 / 4) ''2257'' ''A'' ''1'' = Inr (Some (JArr [JObj [(''ign'', JStr ''Bob'')]])) \<and>
      load_cache (\<lambda>j. if j = JNull then None else Some j) stored
        (6800000003 / 4 + 21599) ''2257'' ''A'' ''1'' = Inr (Some (JArr [JObj [(''ign'', JStr ''Bob'')]])) \<and>
      load_cache (\<lambda>j. if j = JNull then None else Some j) stored
        (6800000003 / 4 + 21601) ''2257'' ''A'' ''1'' = Inr None) \<and>
   save_cache (\<lambda>j. j) (\<lambda>p. False) (\<lambda>p. Absent) (6800000003 / 4) ''2257'' ''A'' ''1''
        (JArr [JObj [(''ign'', JStr ''Bob'')]]) = Inl OSError \<and>
   load_cache (\<lambda>j. if j = JNull then None else Some j) (\<lambda>p. Unusable)
     0 ''2257'' ''A'' ''1'' = Inl OSError \<and>
   load_cache (\<lambda>j. if j = JNull then None else Some j) (\<lambda>p. Absent)
     0 ''2257'' ''A'' ''1'' = Inr None \<and>
   load_cache (\<lambda>j. if j = JNull then None else Some j) (\<lambda>p. Unreadable)
     0 ''2257'' ''A'' ''1'' = Inr None \<and>
   load_cache (\<lambda>j. if j = JNull then None else Some j) (\<lambda>p. Text JNull)
     0 ''2257'' ''A'' ''1'' = Inr None \<and>
   load_cache (\<lambda>j. if j = JNull then None else Some j) (\<lambda>p. Text (JArr []))
     0 ''2257'' ''A'' ''1'' = Inr None \<and>
   load_cache (\<lambda>j. if j = JNull then None else Some j)
     (\<lambda>p. Text (JObj [(''_ts'', JStr ''now''), (''data'', JArr [])]))
     0 ''2257'' ''A'' ''1'' = Inr None \<and>
   within_ttl 1700021600 (JInt 1700000000) = Inr True \<and>
   within_ttl 1700021601 (JInt 1700000000) = Inr False"
proof -
  let ?L = "\<lambda>j. if j = JNull then None else Some j"
  let ?D = "\<lambda>j::json. j"
  let ?W = "\<lambda>p::string. True"
  let ?F = "\<lambda>p::string. Absent :: json path_state"
  let ?t = "6800000003 / 4 :: rat"
  let ?rows = "[JObj [(''ign'', JStr ''Bob'')]]"
  have tr: "trunc_rat ?t = 1700000000" by (simp add: trunc_rat_numeral)
  have rt: "?L (?D (JObj [(''_ts'', JInt (trunc_rat ?t)), (''data'', JArr ?rows)])) =
      Some (JObj [(''_ts'', JInt (trunc_rat ?t)), (''data'', JArr ?rows)])"
    by simp
  have rng: "\<bar>trunc_rat ?t\<bar> < 2 ^ 53" by (simp add: tr)
  have wr: "?W (cache_path ''2257'' ''A'' ''1'')" by simp
  have ttl: "CACHE_TTL_SEC = 21600" by (simp add: CACHE_TTL_SEC_def)
  note inst = cache_roundtrip_by_stored_age [where loads = ?L and dumps = ?D and writable = ?W
      and saved = ?t and rows = ?rows and tid = "''2257''" and grp = "''A''" and rnd = "''1''",
      OF rt rng wr]
  have "?t + 21599 - ?t \<le> CACHE_TTL_SEC - 1" by (simp add: ttl)
  with inst [where files = ?F and now = "?t + 21599"] obtain s1 where
    s1: "save_cache ?D ?W ?F ?t ''2257'' ''A'' ''1'' (JArr ?rows) = Inr s1"
    and a: "load_cache ?L s1 ?t ''2257'' ''A'' ''1'' = Inr (Some (JArr ?rows))"
    and b: "load_cache ?L s1 (?t + 21599) ''2257'' ''A'' ''1'' = Inr (Some (JArr ?rows))"
    by blast
  have "CACHE_TTL_SEC + 1 \<le> ?t + 21601 - of_int (trunc_rat ?t)" by (simp add: tr ttl)
  with inst [where files = ?F and now = "?t + 21601"] obtain s2 where
    s2: "save_cache ?D ?W ?F ?t ''2257'' ''A'' ''1'' (JArr ?rows) = Inr s2"
    and c2: "load_cache ?L s2 (?t + 21601) ''2257'' ''A'' ''1'' = Inr None"
    by blast
  from s1 s2 have "s2 = s1" by simp
  with c2 have c: "load_cache ?L s1 (?t + 21601) ''2257'' ''A'' ''1'' = Inr None" by simp
  from s1 a b c have first: "\<exists>stored.
      save_cache ?D ?W ?F ?t ''2257'' ''A'' ''1'' (JArr ?rows) = Inr stored \<and>
      load_cache ?L stored ?t ''2257'' ''A'' ''1'' = Inr (Some (JArr ?rows)) \<and>
      load_cache ?L stored (?t + 21599) ''2257'' ''A'' ''1'' = Inr (Some (JArr ?rows)) \<and>
      load_cache ?L stored (?t + 21601) ''2257'' ''A'' ''1'' = Inr None"
    by blast
  have e: "save_cache ?D (\<lambda>p. False) ?F ?t ''2257'' ''A'' ''1'' (JArr ?rows) = Inl OSError"
    using inst [where locked = "\<lambda>p. False" and files = ?F] by blast
  have f: "load_cache ?L (\<lambda>p. Unusable) 0 ''2257'' ''A'' ''1'' = Inl OSError"
    using inst [where other = "\<lambda>p. Unusable" and now = 0] by blast
  have g: "load_cache ?L (\<lambda>p. Absent) 0 ''2257'' ''A'' ''1'' = Inr None"
    using inst [where other = "\<lambda>p. Absent" and now = 0] by blast
  have h: "load_cache ?L (\<lambda>p. Unreadable) 0 ''2257'' ''A'' ''1'' = Inr None"
    using inst [where other = "\<lambda>p. Unreadable" and now = 0] by blast
  have "?L JNull = None" by simp
  then have i: "load_cache ?L (\<lambda>p. Text JNull) 0 ''2257'' ''A'' ''1'' = Inr None"
    using inst [where other = "\<lambda>p. Text JNull" and now = 0 and body = JNull] by blast
  have "?L (JArr []) = Some (JArr [])" "\<forall>d. JArr [] \<noteq> JObj d" by simp_all
  then have j: "load_cache ?L (\<lambda>p. Text (JArr [])) 0 ''2257'' ''A'' ''1'' = Inr None"
    using inst [where other = "\<lambda>p. Text (JArr [])" and now = 0 and body = "JArr []"
        and obj = "JArr []"] by blast
  let ?bad = "[(''_ts'', JStr ''now''), (''data'', JArr [])]"
  have "?L (JObj ?bad) = Some (JObj ?bad)"
       "within_ttl 0 (dict_get ?bad ''_ts'' (JInt 0)) \<noteq> Inr True"
    by (simp_all add: dict_get_def)
  then have k: "load_cache ?L (\<lambda>p. Text (JObj ?bad)) 0 ''2257'' ''A'' ''1'' = Inr None"
    using inst [where other = "\<lambda>p. Text (JObj ?bad)" and now = 0 and body = "JObj ?bad"
        and d = ?bad] by simp
  have "\<bar>1700000000 :: int\<bar> < 2 ^ 53"
       "(1700021600 :: rat) - of_int 1700000000 \<le> CACHE_TTL_SEC"
    by (simp_all add: ttl)
  then have l: "within_ttl 1700021600 (JInt 1700000000) = Inr True"
    using inst [where ts = 1700000000 and now = 1700021600] by blast
  have "\<bar>1700000000 :: int\<bar> < 2 ^ 53"
       "CACHE_TTL_SEC + 1 \<le> (1700021601 :: rat) - of_int 1700000000"
    by (simp_all add: ttl)
  then have m: "within_ttl 1700021601 (JInt 1700000000) = Inr False"
    using inst [where ts = 1700000000 and now = 1700021601] by blast
  from first e f g h i j k l m show ?thesis by (intro conjI)
qed


subsection \<open>The table locator\<close>

lemma header_texts_cells: "header_texts tb = map (\<lambda>c. lower (get_text [] c)) (header_cells tb)"
  by (cases "first_tr tb") (simp_all add: header_texts_def header_cells_def header_text_def)

lemma distinct_wanted: "distinct wanted"
  by (simp add: wanted_def)

lemma score_card:
  "score tb = card {w \<in> set wanted. \<exists>c \<in> set (header_cells tb). sublist w (lower (get_text [] c))}"
proof -
  have "score tb = card ({w. list_ex (\<lambda>h. sublist w h) (header_texts tb)} \<inter> set wanted)"
    unfolding score_def using distinct_wanted by (rule distinct_length_filter)
  also have "{w. list_ex (\<lambda>h. sublist w h) (header_texts tb)} \<inter> set wanted =
      {w \<in> set wanted. \<exists>c \<in> set (header_cells tb). sublist w (lower (get_text [] c))}"
    by (auto simp add: header_texts_cells list_ex_iff)
  finally show ?thesis .
qed

lemma find_target_None: "(find_target tables = None) = (\<forall>t \<in> set tables. score t < 4)"
  by (induction tables) auto

lemma find_target_Some:
  "(find_target tables = Some tb) =
     (\<exists>pre post. tables = pre @ tb # post \<and> (\<forall>t \<in> set pre. score t < 4) \<and> 4 \<le> score tb)"
proof (induction tables)
  case Nil
  show ?case by simp
next
  case (Cons x xs)
  show ?case
  proof (cases "4 \<le> score x")
    case True
    have "(\<exists>pre post. x # xs = pre @ tb # post \<and> (\<forall>t \<in> set pre. score t < 4) \<and> 4 \<le> score tb)
        = (x = tb)"
    proof
      assume "\<exists>pre post. x # xs = pre @ tb # post \<and> (\<forall>t \<in> set pre. score t < 4) \<and> 4 \<le> score tb"
      then obtain pre post where e: "x # xs = pre @ tb # post" and s: "\<forall>t \<in> set pre. score t < 4"
        by blast
      show "x = tb"
      proof (cases pre)
        case Nil
        with e show ?thesis by simp
      next
        case (Cons p ps)
        with e have "p = x" by simp
        with Cons s True show ?thesis by auto
      qed
    next
      assume "x = tb"
      with True have "x # xs = [] @ tb # xs \<and> (\<forall>t \<in> set []. score t < 4) \<and> 4 \<le> score tb"
        by simp
      then show "\<exists>pre post. x # xs = pre @ tb # post \<and> (\<forall>t \<in> set pre. score t < 4) \<and> 4 \<le> score tb"
        by blast
    qed
    with True show ?thesis by simp
  next
    case False
    have "(\<exists>pre post. x # xs = pre @ tb # post \<and> (\<forall>t \<in> set pre. score t < 4) \<and> 4 \<le> score tb)
        = (\<exists>pre post. xs = pre @ tb # post \<and> (\<forall>t \<in> set pre. score t < 4) \<and> 4 \<le> score tb)"
    proof
      assume "\<exists>pre post. x # xs = pre @ tb # post \<and> (\<forall>t \<in> set pre. score t < 4) \<and> 4 \<le> score tb"
      then obtain pre post where e: "x # xs = pre @ tb # post" and s: "\<forall>t \<in> set pre. score t < 4"
        and t: "4 \<le> score tb"
        by blast
      show "\<exists>pre post. xs = pre @ tb # post \<and> (\<forall>t \<in> set pre. score t < 4) \<and> 4 \<le> score tb"
      proof (cases pre)
        case Nil
        with e t False show ?thesis by simp
      next
        case (Cons p ps)
        with e s t have "xs = ps @ tb # post \<and> (\<forall>t \<in> set ps. score t < 4) \<and> 4 \<le> score tb"
          by simp
        then show ?thesis by blast
      qed
    next
      assume "\<exists>pre post. xs = pre @ tb # post \<and> (\<forall>t \<in> set pre. score t < 4) \<and> 4 \<le> score tb"
      then obtain pre post where e: "xs = pre @ tb # post" and s: "\<forall>t \<in> set pre. score t < 4"
        and t: "4 \<le> score tb"
        by blast
      with False have "x # xs = (x # pre) @ tb # post \<and> (\<forall>t \<in> set (x # pre). score t < 4) \<and> 4 \<le> score tb"
        by simp
      then show "\<exists>pre post. x # xs = pre @ tb # post \<and> (\<forall>t \<in> set pre. score t < 4) \<and> 4 \<le> score tb"
        by blast
    qed
    with False Cons.IH show ?thesis by simp
  qed
qed

lemma parse_no_table: "\<forall>t \<in> set tables. score t < 4 \<Longrightarrow> parse_twire_players tables = Inr []"
  by (simp add: parse_twire_players_def find_target_None [symmetric])

lemma parse_selected:
  "find_target tables = Some tb \<Longrightarrow>
     parse_twire_players tables = parse_rows (infer_columns (header_texts tb)) [] (body_rows tb)"
  by (simp add: parse_twire_players_def)

text \<open>
  C3. The score of a table is the number of the six synonyms that occur in at least one
  lower-cased header cell, the header cells being those of the header row when there are
  any and those of the first row otherwise. \<^const>\<open>find_target\<close> selects the first table in
  document order whose score is at least 4, and the rows are then read from that table; when
  no table scores at least 4 the parser returns the empty list, not an error. Of two tables
  scoring 5 and 1 the one scoring 5 is selected, in either order.
\<close>

theorem table_locator_first_qualifying:
  "score tb = card {w \<in> set wanted. \<exists>c \<in> set (header_cells tb). sublist w (lower (get_text [] c))}
   \<and> (find_target tables = Some tb \<longleftrightarrow>
        (\<exists>pre post. tables = pre @ tb # post \<and> (\<forall>t \<in> set pre. score t < 4) \<and> 4 \<le> score tb))
   \<and> (find_target tables = None \<longleftrightarrow> (\<forall>t \<in> set tables. score t < 4))
   \<and> (find_target tables = Some tb \<longrightarrow>
        parse_twire_players tables = parse_rows (infer_columns (header_texts tb)) [] (body_rows tb))
   \<and> ((\<forall>t \<in> set tables. score t < 4) \<longrightarrow> parse_twire_players tables = Inr [])
   \<and> (score a = 5 \<and> score b = 1 \<longrightarrow> find_target [a, b] = Some a \<and> find_target [b, a] = Some a)"
proof -
  have e: "score a = 5 \<and> score b = 1 \<longrightarrow> find_target [a, b] = Some a \<and> find_target [b, a] = Some a"
    by simp
  have d: "(\<forall>t \<in> set tables. score t < 4) \<longrightarrow> parse_twire_players tables = Inr []"
    using parse_no_table by blast
  have c: "find_target tables = Some tb \<longrightarrow>
        parse_twire_players tables = parse_rows (infer_columns (header_texts tb)) [] (body_rows tb)"
    using parse_selected by blast
  from score_card [of tb] find_target_Some [of tables tb] find_target_None [of tables] c d e
  show ?thesis by (intro conjI)
qed

theorem table_locator_first_qualifying_witness:
  "score \<lparr>thead_th = [[''Player''], ['' K/D ''], [''Kills''], [''Assists''], [''Headshot'', '' %''], [''Damage'']],
           first_tr = Some [[''Player'']], tbody_tr = [], next_tr = []\<rparr> = 5 \<and>
   score \<lparr>thead_th = [], first_tr = Some [[''Team''], [''Player'']], tbody_tr = [], next_tr = []\<rparr> = 1 \<and>
   find_target
     [\<lparr>thead_th = [], first_tr = Some [[''Team''], [''Player'']], tbody_tr = [], next_tr = []\<rparr>,
      \<lparr>thead_th = [[''Player''], ['' K/D ''], [''Kills''], [''Assists''], [''Headshot'', '' %''], [''Damage'']],
       first_tr = Some [[''Player'']], tbody_tr = [], next_tr = []\<rparr>] =
     Some \<lparr>thead_th = [[''Player''], ['' K/D ''], [''Kills''], [''Assists''], [''Headshot'', '' %''], [''Damage'']],
           first_tr = Some [[''Player'']], tbody_tr = [], next_tr = []\<rparr> \<and>
   parse_twire_players
     [\<lparr>thead_th = [], first_tr = Some [[''Team''], [''Player'']], tbody_tr = [], next_tr = []\<rparr>] = Inr []"
proof -
  let ?A = "\<lparr>thead_th = [[''Player''], ['' K/D ''], [''Kills''], [''Assists''], [''Headshot'', '' %''], [''Damage'']],
           first_tr = Some [[''Player'']], tbody_tr = [], next_tr = []\<rparr>"
  let ?B = "\<lparr>thead_th = [], first_tr = Some [[''Team''], [''Player'']], tbody_tr = [], next_tr = []\<rparr>"
  have sa: "score ?A = 5" by code_simp
  have sb: "score ?B = 1" by code_simp
  from sb have low: "\<forall>t \<in> set [?B]. score t < 4" by simp
  have sel: "find_target [?B, ?A] = Some ?A"
    using table_locator_first_qualifying [where a = ?A and b = ?B] sa sb by blast
  have none: "parse_twire_players [?B] = Inr []"
    using table_locator_first_qualifying [where tables = "[?B]"] low by blast
  from sa sb sel none show ?thesis by (intro conjI)
qed


subsection \<open>The safe accessor\<close>

lemma safe_get_loop_JNull: "ks \<noteq> [] \<Longrightarrow> safe_get_loop JNull ks = None"
  by (cases ks) simp_all

lemma safe_get_path_value:
  "safe_get obj keys dflt =
     (case path_value obj keys of
        None \<Rightarrow> dflt
      | Some v \<Rightarrow> if v = JNull then dflt else v)"
proof (induction obj keys rule: path_value.induct)
  case (1 v)
  show ?case by (simp add: safe_get_def)
next
  case (2 d k ks)
  show ?case
  proof (cases "map_of d k")
    case None
    then show ?thesis
      by (cases ks) (simp_all add: safe_get_def dict_get_def)
  next
    case (Some v)
    with 2 show ?thesis
      by (simp add: safe_get_def dict_get_def)
  qed
qed (simp_all add: safe_get_def)

text \<open>
  C10. The safe accessor is a total function (the model has no error outcome, since the
  source catches every exception and string keys raise none). It returns the caller's
  default when the traversal fails (some node on the way is no dictionary, or a key is
  absent), and also when the whole path exists and the value stored there is
  \<open>None\<close>; otherwise it returns the stored value. So a present null and an absent
  key give the same result.
\<close>

theorem safe_get_default_on_failure_or_null:
  "(path_value obj keys = None \<longrightarrow> safe_get obj keys dflt = dflt) \<and>
   (path_value obj keys = Some JNull \<longrightarrow> safe_get obj keys dflt = dflt) \<and>
   (\<forall>v. path_value obj keys = Some v \<and> v \<noteq> JNull \<longrightarrow> safe_get obj keys dflt = v) \<and>
   safe_get (JObj ((k, JNull) # d)) [k] dflt = safe_get (JObj []) [k] dflt"
  by (simp add: safe_get_path_value)

theorem safe_get_default_on_failure_or_null_witness:
  "path_value (JObj [(''a'', JObj [(''b'', JNull)])]) [''a'', ''c''] = None \<and>
   safe_get (JObj [(''a'', JObj [(''b'', JNull)])]) [''a'', ''c''] (JInt 7) = JInt 7 \<and>
   path_value (JObj [(''a'', JObj [(''b'', JNull)])]) [''a'', ''b''] = Some JNull \<and>
   safe_get (JObj [(''a'', JObj [(''b'', JNull)])]) [''a'', ''b''] (JInt 7) = JInt 7 \<and>
   path_value (JObj [(''a'', JStr ''x'')]) [''a'', ''b''] = None \<and>
   safe_get (JObj [(''a'', JStr ''x'')]) [''a'', ''b''] (JInt 7) = JInt 7"
proof -
  let ?doc = "JObj [(''a'', JObj [(''b'', JNull)])]"
  have a: "path_value ?doc [''a'', ''c''] = None" by simp
  have b: "path_value ?doc [''a'', ''b''] = Some JNull" by simp
  have c: "path_value (JObj [(''a'', JStr ''x'')]) [''a'', ''b''] = None" by simp
  from a safe_get_default_on_failure_or_null [of ?doc "[''a'', ''c'']" "JInt 7"]
  have a': "safe_get ?doc [''a'', ''c''] (JInt 7) = JInt 7" by blast
  from b safe_get_default_on_failure_or_null [of ?doc "[''a'', ''b'']" "JInt 7"]
  have b': "safe_get ?doc [''a'', ''b''] (JInt 7) = JInt 7" by blast
  from c safe_get_default_on_failure_or_null [of "JObj [(''a'', JStr ''x'')]" "[''a'', ''b'']" "JInt 7"]
  have c': "safe_get (JObj [(''a'', JStr ''x'')]) [''a'', ''b''] (JInt 7) = JInt 7" by blast
  from a a' b b' c c' show ?thesis by blast
qed

end
